theory Spec2Isabelle
  imports Complex_Main "HOL-Library.Log_Nat"
begin

section \<open>JavaScript values used by the RSVP playback engine\<close>

subsection \<open>Strings\<close>

text \<open>
  A JavaScript string is a sequence of UTF-16 code units. The engine only compares code
  units with constants and never computes with them, so a code unit is a natural number
  (below 65536). \<open>js\<close> writes a string literal of the source; the pilcrow (U+00B6) and
  the Latin-1 letters of the ORP pattern are given by their code-unit numbers.
\<close>

type_synonym code_unit = nat
type_synonym jsstring = "code_unit list"

definition cu :: "char \<Rightarrow> code_unit" where
  "cu c = of_char c"

definition js :: "string \<Rightarrow> jsstring" where
  "js s = map cu s"

text \<open>\<^verbatim>\<open>xs.join(sep)\<close>: an element that is \<^verbatim>\<open>undefined\<close> (here \<open>None\<close>) is rendered as
  the empty string.\<close>

fun js_join :: "jsstring \<Rightarrow> jsstring option list \<Rightarrow> jsstring" where
  "js_join sep [] = []"
| "js_join sep [x] = (case x of None \<Rightarrow> [] | Some w \<Rightarrow> w)"
| "js_join sep (x # y # ys) = (case x of None \<Rightarrow> [] | Some w \<Rightarrow> w) @ sep @ js_join sep (y # ys)"

subsection \<open>Numbers\<close>

text \<open>
  Positions, counts, the rate and the chunk size are integers (\<open>int\<close>; JavaScript computes
  exactly on integers below \<open>2^53\<close> in magnitude). The timing model,
  the ORP index and the progress data divide and multiply, and JavaScript does that in
  IEEE 754 binary64. A finite binary64 value is a rational; \<open>fl\<close> rounds a rational to the
  nearest binary64 value, ties to the even significand, and the basic operations are the
  exact operation followed by \<open>fl\<close>, as IEEE 754 defines them. Overflow to infinity does not
  occur on the magnitudes of the engine (rates in 50..1500, array lengths below \<open>2^32\<close>) and
  is not modelled.
\<close>

definition ilog2 :: "rat \<Rightarrow> int" where
  \<comment> \<open>for \<open>x > 0\<close>: the \<open>e\<close> with \<open>2^e \<le> x < 2^(e+1)\<close>\<close>
  "ilog2 x = (if 1 \<le> x then bitlen \<lfloor>x\<rfloor> - 1 else - bitlen (\<lceil>1 / x\<rceil> - 1))"

definition pow2 :: "int \<Rightarrow> rat" where
  "pow2 e = (if 0 \<le> e then 2 ^ nat e else 1 / 2 ^ nat (- e))"

definition round_even :: "rat \<Rightarrow> int" where
  "round_even m = (let f = \<lfloor>m\<rfloor>; d = m - of_int f in
     if d < 1 / 2 then f else if 1 / 2 < d then f + 1 else if even f then f else f + 1)"

definition fl :: "rat \<Rightarrow> rat" where
  "fl x = (if x = 0 then 0 else
     let e = max (ilog2 \<bar>x\<bar> - 52) (- 1074)
     in sgn x * of_int (round_even (\<bar>x\<bar> / pow2 e)) * pow2 e)"

definition fadd :: "rat \<Rightarrow> rat \<Rightarrow> rat" where
  "fadd a b = fl (a + b)"

definition fmul :: "rat \<Rightarrow> rat \<Rightarrow> rat" where
  "fmul a b = fl (a * b)"

definition fdiv :: "rat \<Rightarrow> rat \<Rightarrow> rat" where
  "fdiv a b = fl (a / b)"

text \<open>\<^verbatim>\<open>a % b\<close> on numbers is exact (the remainder of the truncated quotient, with the
  sign of the dividend).\<close>

definition js_rem :: "rat \<Rightarrow> rat \<Rightarrow> rat" where
  "js_rem a b = sgn a * (\<bar>a\<bar> - \<bar>b\<bar> * of_int \<lfloor>\<bar>a\<bar> / \<bar>b\<bar>\<rfloor>)"

definition js_floor :: "rat \<Rightarrow> int" where
  "js_floor x = \<lfloor>x\<rfloor>"

definition js_ceil :: "rat \<Rightarrow> int" where
  "js_ceil x = \<lceil>x\<rceil>"

text \<open>\<^verbatim>\<open>Math.round\<close>: the nearest integer, a tie going towards plus infinity.\<close>

definition js_round :: "rat \<Rightarrow> int" where
  "js_round x = \<lfloor>x + 1 / 2\<rfloor>"

text \<open>The decimal digits of an integer, as a template literal prints an integral number
  (below \<open>10^21\<close> in magnitude).\<close>

fun digits :: "nat \<Rightarrow> jsstring" where
  "digits n = (if n < 10 then [cu CHR ''0'' + n] else digits (n div 10) @ [cu CHR ''0'' + n mod 10])"

definition number_string :: "int \<Rightarrow> jsstring" where
  "number_string n = (if n < 0 then cu CHR ''-'' # digits (nat (- n)) else digits (nat n))"

section \<open>The ORP model\<close>

text \<open>The characters kept when \<^verbatim>\<open>calculateORP\<close> strips the word with its negated
  character class: ASCII letters and digits, the Latin-1 letters from U+00C0 (192) to
  U+00FF (255), the apostrophe and the hyphen.\<close>

definition orp_char :: "code_unit \<Rightarrow> bool" where
  "orp_char c \<longleftrightarrow>
     (cu CHR ''a'' \<le> c \<and> c \<le> cu CHR ''z'') \<or> (cu CHR ''A'' \<le> c \<and> c \<le> cu CHR ''Z'') \<or>
     (cu CHR ''0'' \<le> c \<and> c \<le> cu CHR ''9'') \<or> (192 \<le> c \<and> c \<le> 255) \<or>
     c = cu (CHR 0x27) \<or> c = cu CHR ''-''"

definition calculateORP :: "jsstring \<Rightarrow> nat" where
  "calculateORP word =
     (let cleanWord = filter orp_char word;
          len = length cleanWord
      in if len \<le> 0 then 0
         else if len = 1 then 0
         else if len = 2 then 0
         else if len = 3 then 1
         else nat (js_floor (fmul (of_nat len) (fl (35 / 100)))))"

record orp_split =
  before :: jsstring
  orp :: jsstring
  after :: jsstring
  orpIndex :: nat
  wordLength :: nat

text \<open>\<^verbatim>\<open>word.substring(a, b)\<close> with \<open>a \<le> b\<close> clamps both ends to the length;
  \<^verbatim>\<open>word[i] || ''\<close> is the one-unit string at \<open>i\<close>, or the empty string out of range.\<close>

definition substring :: "jsstring \<Rightarrow> nat \<Rightarrow> nat \<Rightarrow> jsstring" where
  "substring w a b = drop a (take b w)"

definition substring_from :: "jsstring \<Rightarrow> nat \<Rightarrow> jsstring" where
  "substring_from w a = drop a w"

definition char_or_empty :: "jsstring \<Rightarrow> nat \<Rightarrow> jsstring" where
  "char_or_empty w i = (if i < length w then [w ! i] else [])"

definition splitAtORP :: "jsstring \<Rightarrow> orp_split" where
  "splitAtORP word =
     (let i = calculateORP word
      in \<lparr>before = substring word 0 i,
          orp = char_or_empty word i,
          after = substring_from word (i + 1),
          orpIndex = i,
          wordLength = length word\<rparr>)"

section \<open>The engine object and its host\<close>

text \<open>
  The channels that the engine emits on and that consumers subscribe to. The source keys
  its listener table by the channel's name; these eight names are the keys in use.
\<close>

datatype event = LoadEv | PlayEv | PauseEv | StopEv | EndEv | WordEv | ProgressEv | SpeedChangeEv

record progress =
  current :: int
  total :: nat
  percent :: rat
  wordsRemaining :: int
  timeRemaining :: jsstring

text \<open>The argument passed to the callbacks of a channel (\<open>NoData\<close> where \<^verbatim>\<open>_emit\<close> is called
  with the name alone).\<close>

datatype payload =
    NoData
  | LoadData nat int
  | PauseData int
  | WordData jsstring int orp_split
  | ProgressData progress
  | SpeedData int

text \<open>
  The fields of \<^verbatim>\<open>RSVPEngine\<close>, followed by the part of the host that the engine acts on:
  the timeouts set with \<^verbatim>\<open>setTimeout\<close> that have neither fired nor been cleared (handle
  and delay, in the order they were set), the next handle the host hands out, and the
  callback invocations made by \<^verbatim>\<open>_emit\<close> so far (callback, channel, argument), in order.
  A callback is an opaque identity (compared with \<^verbatim>\<open>!==\<close> in \<^verbatim>\<open>off\<close>); a timer handle is
  a positive number in browsers, so \<^verbatim>\<open>if (this.timerId)\<close> tests for a stored handle.
\<close>

record engine =
  words :: "jsstring list"
  currentIndex :: int
  isPlaying :: bool
  isPaused :: bool
  timerId :: "nat option"
  wpm :: int
  chunkSize :: int
  listeners :: "event \<Rightarrow> nat list option"
  timeouts :: "(nat \<times> int) list"
  nextHandle :: nat
  calls :: "(nat \<times> event \<times> payload) list"

definition constructor :: engine where
  "constructor =
     \<lparr>words = [], currentIndex = 0, isPlaying = False, isPaused = False, timerId = None,
      wpm = 300, chunkSize = 1, listeners = (\<lambda>_. None),
      timeouts = [], nextHandle = 1, calls = []\<rparr>"

subsection \<open>Event system\<close>

definition off :: "event \<Rightarrow> nat \<Rightarrow> engine \<Rightarrow> engine" where
  "off ev callback s =
     (case listeners s ev of
        None \<Rightarrow> s
      | Some cbs \<Rightarrow> s\<lparr>listeners := (listeners s)(ev \<mapsto> filter (\<lambda>cb. cb \<noteq> callback) cbs)\<rparr>)"

text \<open>\<^verbatim>\<open>on\<close> returns the unsubscribe handle \<^verbatim>\<open>() => this.off(event, callback)\<close> (first
  component) and leaves the engine with the callback pushed (second component).\<close>

definition on :: "event \<Rightarrow> nat \<Rightarrow> engine \<Rightarrow> (engine \<Rightarrow> engine) \<times> engine" where
  "on ev callback s =
     (let s1 = (if listeners s ev = None then s\<lparr>listeners := (listeners s)(ev \<mapsto> [])\<rparr> else s);
          s2 = s1\<lparr>listeners := (listeners s1)(ev \<mapsto> the (listeners s1 ev) @ [callback])\<rparr>
      in (off ev callback, s2))"

definition emit :: "event \<Rightarrow> payload \<Rightarrow> engine \<Rightarrow> engine" where
  "emit ev data s =
     (case listeners s ev of
        None \<Rightarrow> s
      | Some cbs \<Rightarrow> s\<lparr>calls := calls s @ map (\<lambda>cb. (cb, ev, data)) cbs\<rparr>)"

subsection \<open>Timers\<close>

definition setTimeout :: "int \<Rightarrow> engine \<Rightarrow> engine" where
  \<comment> \<open>\<^verbatim>\<open>this.timerId = setTimeout(() => this._tick(), delay)\<close>\<close>
  "setTimeout delay s =
     s\<lparr>timeouts := timeouts s @ [(nextHandle s, delay)],
       timerId := Some (nextHandle s),
       nextHandle := Suc (nextHandle s)\<rparr>"

definition clearTimer :: "engine \<Rightarrow> engine" where
  "clearTimer s =
     (case timerId s of
        None \<Rightarrow> s
      | Some h \<Rightarrow> s\<lparr>timeouts := filter (\<lambda>t. fst t \<noteq> h) (timeouts s), timerId := None\<rparr>)"

subsection \<open>Timing model\<close>

definition alnum_char :: "code_unit \<Rightarrow> bool" where
  \<comment> \<open>kept by \<^verbatim>\<open>word.replace(/[^a-zA-Z0-9]/g, '')\<close>\<close>
  "alnum_char c \<longleftrightarrow>
     (cu CHR ''a'' \<le> c \<and> c \<le> cu CHR ''z'') \<or> (cu CHR ''A'' \<le> c \<and> c \<le> cu CHR ''Z'') \<or>
     (cu CHR ''0'' \<le> c \<and> c \<le> cu CHR ''9'')"

definition last_char :: "jsstring \<Rightarrow> code_unit option" where
  \<comment> \<open>\<^verbatim>\<open>word[word.length - 1]\<close>, \<^verbatim>\<open>undefined\<close> on the empty string\<close>
  "last_char w = (if w = [] then None else Some (last w))"

definition js_includes :: "'a list \<Rightarrow> 'a \<Rightarrow> bool" where
  "js_includes xs x \<longleftrightarrow> x \<in> set xs"

definition calculateDelay :: "engine \<Rightarrow> jsstring \<Rightarrow> int" where
  "calculateDelay s word =
     (let baseDelay = fdiv 60000 (of_int (wpm s));
          cleanLen = length (filter alnum_char word);
          modifier = (if cleanLen \<le> 3 then fl (8 / 10)
                      else if 8 \<le> cleanLen then fl (12 / 10)
                      else 1);
          lastChar = last_char word;
          modifier =
            (if js_includes [Some (cu CHR ''.''), Some (cu CHR ''!''), Some (cu CHR ''?'')] lastChar
               then fadd modifier 1
             else if js_includes [Some (cu CHR '',''), Some (cu CHR '';''), Some (cu CHR '':'')] lastChar
               then fadd modifier (fl (6 / 10))
             else if js_includes [Some (cu (CHR 0x22)), Some (cu (CHR 0x22)), Some (cu (CHR 0x22)),
                               Some (cu (CHR 0x27)), Some (cu CHR '')'')] lastChar
               then fadd modifier (fl (3 / 10))
             else modifier);
          modifier = (if js_includes word (cu (CHR 0x0A)) \<or> js_includes word 182
                      then fadd modifier (fl (15 / 10)) else modifier)
      in js_round (fmul baseDelay modifier))"

subsection \<open>Progress data\<close>

definition formatTime :: "rat \<Rightarrow> jsstring" where
  "formatTime minutes =
     (if minutes < 1 then js ''< 1 min''
      else if minutes < 60 then number_string (js_ceil minutes) @ js '' min''
      else let hrs = js_floor (fdiv minutes 60);
               mins = js_ceil (js_rem minutes 60)
           in number_string hrs @ js ''h '' @ number_string mins @ js ''m'')"

definition progressData :: "engine \<Rightarrow> progress" where
  "progressData s =
     (let total = length (words s);
          current = currentIndex s;
          percent = (if total > 0 then fmul (fdiv (of_int current) (of_nat total)) 100 else 0);
          wordsRemaining = max 0 (int total - current);
          minutesRemaining = fdiv (of_int wordsRemaining) (of_int (wpm s))
      in \<lparr>current = current,
          total = total,
          percent = min 100 percent,
          wordsRemaining = wordsRemaining,
          timeRemaining = formatTime minutesRemaining\<rparr>)"

text \<open>\<^verbatim>\<open>getProgress\<close> returns the data; the engine it leaves behind is the second
  component.\<close>

definition getProgress :: "engine \<Rightarrow> progress \<times> engine" where
  "getProgress s = (progressData s, s)"

subsection \<open>The display chunk\<close>

text \<open>\<^verbatim>\<open>this.words[i]\<close>: \<^verbatim>\<open>undefined\<close> outside the array.\<close>

definition word_at :: "jsstring list \<Rightarrow> int \<Rightarrow> jsstring option" where
  "word_at ws i = (if 0 \<le> i \<and> i < int (length ws) then Some (ws ! nat i) else None)"

function chunk_from :: "engine \<Rightarrow> int \<Rightarrow> jsstring option list" where
  "chunk_from s i =
     (if i < chunkSize s \<and> currentIndex s + i < int (length (words s))
      then word_at (words s) (currentIndex s + i) # chunk_from s (i + 1)
      else [])"
  by pat_completeness auto
termination
  by (relation "measure (\<lambda>(s, i). nat (chunkSize s - i))") auto

declare chunk_from.simps [simp del]

definition displayWord :: "engine \<Rightarrow> jsstring" where
  "displayWord s = js_join (js '' '') (chunk_from s 0)"

definition emitCurrentWord :: "engine \<Rightarrow> engine" where
  "emitCurrentWord s =
     (if currentIndex s < int (length (words s))
      then emit WordEv (WordData (displayWord s) (currentIndex s) (splitAtORP (displayWord s))) s
      else s)"

subsection \<open>Sentence boundary search\<close>

definition sentence_end :: "jsstring list \<Rightarrow> int \<Rightarrow> bool" where
  \<comment> \<open>\<^verbatim>\<open>word && /[.!?]$/.test(word)\<close> for \<^verbatim>\<open>word = this.words[i]\<close>\<close>
  "sentence_end ws i =
     (case word_at ws i of
        None \<Rightarrow> False
      | Some w \<Rightarrow> w \<noteq> [] \<and> js_includes [cu CHR ''.'', cu CHR ''!'', cu CHR ''?''] (last w))"

function start_scan :: "jsstring list \<Rightarrow> int \<Rightarrow> int" where
  "start_scan ws i =
     (if 0 \<le> i then (if sentence_end ws i then i + 1 else start_scan ws (i - 1)) else 0)"
  by pat_completeness auto
termination
  by (relation "measure (\<lambda>(ws, i). nat (i + 1))") auto

declare start_scan.simps [simp del]

definition findSentenceStart :: "engine \<Rightarrow> int \<Rightarrow> int" where
  "findSentenceStart s index = start_scan (words s) (index - 1)"

function end_scan :: "jsstring list \<Rightarrow> int \<Rightarrow> int" where
  "end_scan ws i =
     (if i < int (length ws)
      then (if sentence_end ws i then min (i + 1) (int (length ws) - 1) else end_scan ws (i + 1))
      else int (length ws) - 1)"
  by pat_completeness auto
termination
  by (relation "measure (\<lambda>(ws, i). nat (int (length ws) - i))") auto

declare end_scan.simps [simp del]

definition findSentenceEnd :: "engine \<Rightarrow> int \<Rightarrow> int" where
  "findSentenceEnd s index = end_scan (words s) index"

subsection \<open>Public operations and the autoplay step\<close>

definition load :: "jsstring list \<Rightarrow> int option \<Rightarrow> engine \<Rightarrow> engine" where
  "load ws startIndex s =
     (let start = (case startIndex of None \<Rightarrow> 0 | Some i \<Rightarrow> i);
          s1 = s\<lparr>words := ws\<rparr>;
          s2 = s1\<lparr>currentIndex := min start (int (length ws) - 1)\<rparr>;
          s3 = s2\<lparr>isPlaying := False, isPaused := False\<rparr>;
          s4 = clearTimer s3
      in emit LoadEv (LoadData (length ws) (currentIndex s4)) s4)"

definition tick :: "engine \<Rightarrow> engine" where
  "tick s =
     (if \<not> isPlaying s \<or> currentIndex s \<ge> int (length (words s))
      then (if currentIndex s \<ge> int (length (words s))
            then emit EndEv NoData (s\<lparr>isPlaying := False\<rparr>)
            else s)
      else let w = displayWord s;
               s1 = emit WordEv (WordData w (currentIndex s) (splitAtORP w)) s;
               s2 = emit ProgressEv (ProgressData (progressData s1)) s1;
               delay = calculateDelay s2 w;
               s3 = s2\<lparr>currentIndex := currentIndex s2 + chunkSize s2\<rparr>
           in setTimeout delay s3)"

definition play :: "engine \<Rightarrow> engine" where
  "play s =
     (if length (words s) = 0 then s
      else let s1 = (if currentIndex s \<ge> int (length (words s)) then s\<lparr>currentIndex := 0\<rparr> else s);
               s2 = s1\<lparr>isPlaying := True, isPaused := False\<rparr>;
               s3 = emit PlayEv NoData s2
           in tick s3)"

definition pause :: "engine \<Rightarrow> engine" where
  "pause s =
     (let s1 = s\<lparr>isPlaying := False, isPaused := True\<rparr>;
          s2 = clearTimer s1
      in emit PauseEv (PauseData (currentIndex s2)) s2)"

definition togglePlay :: "engine \<Rightarrow> engine" where
  "togglePlay s = (if isPlaying s then pause s else play s)"

definition rewind :: "int option \<Rightarrow> engine \<Rightarrow> engine" where
  "rewind count s =
     (let s1 = (case count of
                  Some c \<Rightarrow> s\<lparr>currentIndex := max 0 (currentIndex s - c)\<rparr>
                | None \<Rightarrow> s\<lparr>currentIndex := findSentenceStart s (currentIndex s)\<rparr>);
          s2 = emitCurrentWord s1
      in emit ProgressEv (ProgressData (progressData s2)) s2)"

definition skip :: "int option \<Rightarrow> engine \<Rightarrow> engine" where
  "skip count s =
     (let s1 = (case count of
                  Some c \<Rightarrow> s\<lparr>currentIndex := min (int (length (words s)) - 1) (currentIndex s + c)\<rparr>
                | None \<Rightarrow> s\<lparr>currentIndex := findSentenceEnd s (currentIndex s)\<rparr>);
          s2 = emitCurrentWord s1
      in emit ProgressEv (ProgressData (progressData s2)) s2)"

definition jumpTo :: "int \<Rightarrow> engine \<Rightarrow> engine" where
  "jumpTo index s =
     (let s1 = s\<lparr>currentIndex := max 0 (min index (int (length (words s)) - 1))\<rparr>;
          s2 = emitCurrentWord s1
      in emit ProgressEv (ProgressData (progressData s2)) s2)"

definition setSpeed :: "int \<Rightarrow> engine \<Rightarrow> engine" where
  "setSpeed r s =
     (let s1 = s\<lparr>wpm := max 50 (min 1500 r)\<rparr>
      in emit SpeedChangeEv (SpeedData (wpm s1)) s1)"

definition setChunkSize :: "int \<Rightarrow> engine \<Rightarrow> engine" where
  "setChunkSize sz s = s\<lparr>chunkSize := max 1 (min 3 sz)\<rparr>"

definition stop :: "engine \<Rightarrow> engine" where
  "stop s =
     (let s1 = s\<lparr>isPlaying := False, isPaused := False\<rparr>;
          s2 = clearTimer s1
      in emit StopEv NoData s2)"

text \<open>The host runs the callback of a timeout that is still set: the timeout leaves the
  host's table and \<^verbatim>\<open>_tick\<close> runs. A handle that is not set does nothing.\<close>

definition fire :: "nat \<Rightarrow> engine \<Rightarrow> engine" where
  "fire h s =
     (if h \<in> fst ` set (timeouts s)
      then tick (s\<lparr>timeouts := filter (\<lambda>t. fst t \<noteq> h) (timeouts s)\<rparr>)
      else s)"

subsection \<open>Calls as data\<close>

text \<open>A use of the engine is a sequence of calls of its public methods, interleaved with
  the host running the callbacks of timeouts that are set.\<close>

datatype operation =
    Load "jsstring list" "int option"
  | Play
  | Pause
  | TogglePlay
  | Rewind "int option"
  | Skip "int option"
  | JumpTo int
  | SetSpeed int
  | SetChunkSize int
  | Stop
  | GetProgress
  | On event nat
  | Off event nat
  | TimerFires nat

fun exec :: "operation \<Rightarrow> engine \<Rightarrow> engine" where
  "exec (Load ws startIndex) s = load ws startIndex s"
| "exec Play s = play s"
| "exec Pause s = pause s"
| "exec TogglePlay s = togglePlay s"
| "exec (Rewind count) s = rewind count s"
| "exec (Skip count) s = skip count s"
| "exec (JumpTo index) s = jumpTo index s"
| "exec (SetSpeed r) s = setSpeed r s"
| "exec (SetChunkSize sz) s = setChunkSize sz s"
| "exec Stop s = stop s"
| "exec GetProgress s = snd (getProgress s)"
| "exec (On ev callback) s = snd (on ev callback s)"
| "exec (Off ev callback) s = off ev callback s"
| "exec (TimerFires h) s = fire h s"

fun run :: "operation list \<Rightarrow> engine \<Rightarrow> engine" where
  "run [] s = s"
| "run (x # xs) s = run xs (exec x s)"

section \<open>Arguments as the host language admits them\<close>

text \<open>
  The operations above take arguments of the types the specification names: integers, a
  sequence of strings, one of the eight channels. JavaScript passes any value. This
  section models the places of the source where that matters: the clamping
  expressions on numbers that may be infinite or NaN, \<^verbatim>\<open>words.length\<close> in \<^verbatim>\<open>load\<close> when
  \<^verbatim>\<open>words\<close> is null or undefined, and the lookup \<^verbatim>\<open>this._listeners[event]\<close> for any name.
\<close>

subsection \<open>Clamping expressions on numbers\<close>

datatype number = Finite rat | PosInfinity | NegInfinity | NaN

fun number_le :: "number \<Rightarrow> number \<Rightarrow> bool" where
  "number_le (Finite x) (Finite y) = (x \<le> y)"
| "number_le NegInfinity _ = True"
| "number_le _ PosInfinity = True"
| "number_le _ _ = False"

text \<open>\<^verbatim>\<open>Math.max\<close> and \<^verbatim>\<open>Math.min\<close> of two numbers: NaN when either is NaN.\<close>

definition math_max :: "number \<Rightarrow> number \<Rightarrow> number" where
  "math_max a b = (if a = NaN \<or> b = NaN then NaN else if number_le a b then b else a)"

definition math_min :: "number \<Rightarrow> number \<Rightarrow> number" where
  "math_min a b = (if a = NaN \<or> b = NaN then NaN else if number_le a b then a else b)"

definition setSpeed_value :: "number \<Rightarrow> number" where
  \<comment> \<open>the value \<^verbatim>\<open>setSpeed(wpm)\<close> assigns to \<^verbatim>\<open>this.wpm\<close>\<close>
  "setSpeed_value rate = math_max (Finite 50) (math_min (Finite 1500) rate)"

definition setChunkSize_value :: "number \<Rightarrow> number" where
  \<comment> \<open>the value \<^verbatim>\<open>setChunkSize(size)\<close> assigns to \<^verbatim>\<open>this.chunkSize\<close>\<close>
  "setChunkSize_value sz = math_max (Finite 1) (math_min (Finite 3) sz)"

definition jumpTo_value :: "nat \<Rightarrow> number \<Rightarrow> number" where
  \<comment> \<open>the value \<^verbatim>\<open>jumpTo(index)\<close> assigns to \<^verbatim>\<open>this.currentIndex\<close> on a sequence of the
      given length\<close>
  "jumpTo_value len index = math_max (Finite 0) (math_min index (Finite (of_nat len - 1)))"

subsection \<open>Errors\<close>

datatype js_error = TypeError

text \<open>\<^verbatim>\<open>load(words, startIndex)\<close> reads \<^verbatim>\<open>words.length\<close>, which throws a TypeError when
  \<^verbatim>\<open>words\<close> is null or undefined (\<open>None\<close>).\<close>

definition load_any :: "jsstring list option \<Rightarrow> int option \<Rightarrow> engine \<Rightarrow> js_error + engine" where
  "load_any ws startIndex s =
     (case ws of None \<Rightarrow> Inl TypeError | Some xs \<Rightarrow> Inr (load xs startIndex s))"

text \<open>
  The listener table is a plain object. For a name that is not one of its own keys, the
  lookup \<^verbatim>\<open>this._listeners[event]\<close> goes to \<^verbatim>\<open>Object.prototype\<close>: for one of that object's
  property names it yields a value that is neither undefined nor an array, so that
  neither \<^verbatim>\<open>on\<close> nor \<^verbatim>\<open>off\<close> takes its early branch and the call of \<^verbatim>\<open>push\<close> or \<^verbatim>\<open>filter\<close>
  throws a TypeError. Any other name that is not a channel gets a key of its own, on
  which the engine never emits; the table of the eight channels is as before.
\<close>

definition object_prototype_names :: "jsstring list" where
  "object_prototype_names =
     [js ''constructor'', js ''toString'', js ''toLocaleString'', js ''valueOf'',
      js ''hasOwnProperty'', js ''isPrototypeOf'', js ''propertyIsEnumerable'',
      js ''__proto__'', js ''__defineGetter__'', js ''__defineSetter__'',
      js ''__lookupGetter__'', js ''__lookupSetter__'']"

fun channel_name :: "event \<Rightarrow> jsstring" where
  "channel_name LoadEv = js ''load''"
| "channel_name PlayEv = js ''play''"
| "channel_name PauseEv = js ''pause''"
| "channel_name StopEv = js ''stop''"
| "channel_name EndEv = js ''end''"
| "channel_name WordEv = js ''word''"
| "channel_name ProgressEv = js ''progress''"
| "channel_name SpeedChangeEv = js ''speedChange''"

definition channels :: "event list" where
  "channels = [LoadEv, PlayEv, PauseEv, StopEv, EndEv, WordEv, ProgressEv, SpeedChangeEv]"

definition channel_of :: "jsstring \<Rightarrow> event option" where
  "channel_of name = find (\<lambda>ev. channel_name ev = name) channels"

definition on_name :: "jsstring \<Rightarrow> nat \<Rightarrow> engine \<Rightarrow> js_error + (engine \<Rightarrow> engine) \<times> engine" where
  "on_name name callback s =
     (case channel_of name of
        Some ev \<Rightarrow> Inr (on ev callback s)
      | None \<Rightarrow> if name \<in> set object_prototype_names then Inl TypeError else Inr (id, s))"

definition off_name :: "jsstring \<Rightarrow> nat \<Rightarrow> engine \<Rightarrow> js_error + engine" where
  "off_name name callback s =
     (case channel_of name of
        Some ev \<Rightarrow> Inr (off ev callback s)
      | None \<Rightarrow> if name \<in> set object_prototype_names then Inl TypeError else Inr s)"

subsection \<open>Calls of the public methods\<close>

datatype invocation =
    ILoad "jsstring list option" "int option"
  | IPlay
  | IPause
  | ITogglePlay
  | IRewind "int option"
  | ISkip "int option"
  | IJumpTo int
  | ISetSpeed int
  | ISetChunkSize int
  | IStop
  | IGetProgress
  | IOn jsstring nat
  | IOff jsstring nat

fun invoke :: "invocation \<Rightarrow> engine \<Rightarrow> js_error + engine" where
  "invoke (ILoad ws startIndex) s = load_any ws startIndex s"
| "invoke IPlay s = Inr (play s)"
| "invoke IPause s = Inr (pause s)"
| "invoke ITogglePlay s = Inr (togglePlay s)"
| "invoke (IRewind count) s = Inr (rewind count s)"
| "invoke (ISkip count) s = Inr (skip count s)"
| "invoke (IJumpTo index) s = Inr (jumpTo index s)"
| "invoke (ISetSpeed r) s = Inr (setSpeed r s)"
| "invoke (ISetChunkSize sz) s = Inr (setChunkSize sz s)"
| "invoke IStop s = Inr (stop s)"
| "invoke IGetProgress s = Inr (snd (getProgress s))"
| "invoke (IOn name callback) s = map_sum id snd (on_name name callback s)"
| "invoke (IOff name callback) s = off_name name callback s"

section \<open>The specification's formulas\<close>

text \<open>
  The definitions of this section follow the wording of the specification, not the
  source; the theorems below compare them with the source's functions. Where the
  specification multiplies or divides fractions, the formula is given twice: in exact
  arithmetic (\<open>exact_\<close>) and in binary64 (\<open>spec_\<close>).
\<close>

subsection \<open>ORP index\<close>

definition kept_characters :: "code_unit list" where
  \<comment> \<open>the class \<^verbatim>\<open>[A-Za-z0-9\<close>, U+00C0 to U+00FF, \<^verbatim>\<open>'-]\<close>, character by character\<close>
  "kept_characters =
     js ''abcdefghijklmnopqrstuvwxyz'' @ js ''ABCDEFGHIJKLMNOPQRSTUVWXYZ'' @ js ''0123456789'' @
     [192..<256] @ [cu (CHR 0x27), cu CHR ''-'']"

definition clean_length :: "jsstring \<Rightarrow> nat" where
  \<comment> \<open>the length left after stripping every character outside the class\<close>
  "clean_length w = length (filter (\<lambda>c. c \<in> set kept_characters) w)"

definition exact_orp_index :: "nat \<Rightarrow> nat" where
  \<comment> \<open>0 for a clean length up to 2, 1 for 3, the floor of length times 0.35 from 4 on\<close>
  "exact_orp_index len =
     (if len \<le> 2 then 0
      else if len = 3 then 1
      else nat \<lfloor>rat_of_nat len * 35 / 100\<rfloor>)"

definition spec_orp_index :: "nat \<Rightarrow> nat" where
  \<comment> \<open>the same with the product taken in binary64\<close>
  "spec_orp_index len =
     (if len \<le> 2 then 0
      else if len = 3 then 1
      else nat \<lfloor>fmul (of_nat len) (fl (35 / 100))\<rfloor>)"

subsection \<open>Step delay\<close>

definition alphanumeric_characters :: "code_unit list" where
  "alphanumeric_characters =
     js ''abcdefghijklmnopqrstuvwxyz'' @ js ''ABCDEFGHIJKLMNOPQRSTUVWXYZ'' @ js ''0123456789''"

definition alphanumeric_length :: "jsstring \<Rightarrow> nat" where
  "alphanumeric_length w = length (filter (\<lambda>c. c \<in> set alphanumeric_characters) w)"

definition length_factor :: "nat \<Rightarrow> rat" where
  "length_factor n = (if n \<le> 3 then 8 / 10 else if 8 \<le> n then 12 / 10 else 1)"

definition typographic_closing_quote :: "code_unit \<Rightarrow> bool" where
  \<comment> \<open>the right single (U+2019) and right double (U+201D) quotation marks\<close>
  "typographic_closing_quote c \<longleftrightarrow> c = 0x2019 \<or> c = 0x201D"

definition closing_quote :: "code_unit \<Rightarrow> bool" where
  \<comment> \<open>a character that closes a quotation: the ASCII double quote and apostrophe, and
      the typographic closing quotes\<close>
  "closing_quote c \<longleftrightarrow>
     c = cu (CHR 0x22) \<or> c = cu (CHR 0x27) \<or> typographic_closing_quote c"

definition punctuation_bonus :: "jsstring \<Rightarrow> rat option" where
  \<comment> \<open>the single bonus selected by the raw last character, if any\<close>
  "punctuation_bonus w =
     (if w = [] then None
      else if last w \<in> {cu CHR ''.'', cu CHR ''!'', cu CHR ''?''} then Some 1
      else if last w \<in> {cu CHR '','', cu CHR '';'', cu CHR '':''} then Some (6 / 10)
      else if closing_quote (last w) \<or> last w = cu CHR '')'' then Some (3 / 10)
      else None)"

definition ends_in_typographic_quote :: "jsstring \<Rightarrow> bool" where
  "ends_in_typographic_quote w \<longleftrightarrow> w \<noteq> [] \<and> typographic_closing_quote (last w)"

definition paragraph_break :: "jsstring \<Rightarrow> bool" where
  \<comment> \<open>a literal newline (U+000A) or pilcrow (U+00B6) anywhere in the chunk\<close>
  "paragraph_break w \<longleftrightarrow> 10 \<in> set w \<or> 182 \<in> set w"

definition exact_modifier :: "jsstring \<Rightarrow> rat" where
  "exact_modifier w =
     length_factor (alphanumeric_length w) +
     (case punctuation_bonus w of None \<Rightarrow> 0 | Some b \<Rightarrow> b) +
     (if paragraph_break w then 15 / 10 else 0)"

definition exact_delay :: "int \<Rightarrow> jsstring \<Rightarrow> int" where
  \<comment> \<open>round((60000 / r) * modifier) in exact arithmetic, a tie rounded up\<close>
  "exact_delay r w = \<lfloor>60000 / of_int r * exact_modifier w + 1 / 2\<rfloor>"

definition spec_modifier :: "jsstring \<Rightarrow> rat" where
  \<comment> \<open>the modifier with each constant and each sum rounded to binary64\<close>
  "spec_modifier w =
     (let m0 = fl (length_factor (alphanumeric_length w));
          m1 = (case punctuation_bonus w of None \<Rightarrow> m0 | Some b \<Rightarrow> fadd m0 (fl b))
      in if paragraph_break w then fadd m1 (fl (15 / 10)) else m1)"

definition spec_delay :: "int \<Rightarrow> jsstring \<Rightarrow> int" where
  \<comment> \<open>round((60000 / r) * modifier) in binary64\<close>
  "spec_delay r w = js_round (fmul (fdiv 60000 (of_int r)) (spec_modifier w))"

subsection \<open>Clamping\<close>

definition clamp :: "'a::linorder \<Rightarrow> 'a \<Rightarrow> 'a \<Rightarrow> 'a" where
  \<comment> \<open>the value of \<open>[lo, hi]\<close> nearest to \<open>x\<close>\<close>
  "clamp x lo hi = (if x < lo then lo else if hi < x then hi else x)"

subsection \<open>Arguments of the specified types\<close>

fun in_types :: "invocation \<Rightarrow> bool" where
  \<comment> \<open>\<^verbatim>\<open>load\<close> is given a sequence of strings, \<^verbatim>\<open>on\<close> and \<^verbatim>\<open>off\<close> one of the eight channel
      names; the numbers are integers by the type of the call\<close>
  "in_types (ILoad ws startIndex) = (ws \<noteq> None)"
| "in_types (IOn name callback) = (name \<in> channel_name ` set channels)"
| "in_types (IOff name callback) = (name \<in> channel_name ` set channels)"
| "in_types c = True"

subsection \<open>Sentence boundaries\<close>

definition ends_sentence :: "jsstring \<Rightarrow> bool" where
  \<comment> \<open>a word whose last character is a full stop, an exclamation mark or a question mark\<close>
  "ends_sentence w \<longleftrightarrow> w \<noteq> [] \<and> last w \<in> {cu CHR ''.'', cu CHR ''!'', cu CHR ''?''}"

definition sentence_end_at :: "jsstring list \<Rightarrow> int \<Rightarrow> bool" where
  \<comment> \<open>position \<open>j\<close> of the sequence holds such a word\<close>
  "sentence_end_at ws j \<longleftrightarrow> 0 \<le> j \<and> j < int (length ws) \<and> ends_sentence (ws ! nat j)"

definition spec_sentence_start :: "jsstring list \<Rightarrow> int \<Rightarrow> int" where
  \<comment> \<open>scan backward from \<open>i - 1\<close>; the position after the first hit, 0 without one\<close>
  "spec_sentence_start ws i =
     (case filter (sentence_end_at ws) (rev [0..i - 1]) of
        [] \<Rightarrow> 0
      | j # _ \<Rightarrow> j + 1)"

definition spec_sentence_end :: "jsstring list \<Rightarrow> int \<Rightarrow> int" where
  \<comment> \<open>scan forward from \<open>i\<close> inclusive; the position after the first hit, clamped to
      \<open>length - 1\<close>; \<open>length - 1\<close> without one\<close>
  "spec_sentence_end ws i =
     (case filter (sentence_end_at ws) [i..int (length ws) - 1] of
        [] \<Rightarrow> int (length ws) - 1
      | j # _ \<Rightarrow> min (j + 1) (int (length ws) - 1))"

subsection \<open>Subscriptions\<close>

definition registered :: "engine \<Rightarrow> event \<Rightarrow> nat list" where
  \<comment> \<open>the callbacks registered under a channel, in registration order\<close>
  "registered s ev = (case listeners s ev of None \<Rightarrow> [] | Some cbs \<Rightarrow> cbs)"

subsection \<open>Position bounds\<close>

definition position_in_bounds :: "engine \<Rightarrow> bool" where
  \<comment> \<open>the position is at least 0 and at most two past the length of the sequence\<close>
  "position_in_bounds s \<longleftrightarrow>
     0 \<le> currentIndex s \<and> currentIndex s \<le> int (length (words s)) + 2"

definition chunk_in_range :: "engine \<Rightarrow> bool" where
  "chunk_in_range s \<longleftrightarrow> 1 \<le> chunkSize s \<and> chunkSize s \<le> 3"

text \<open>The calls whose arguments are in the domain the specification describes: a load
  of a non-empty sequence at a start index that is not negative, counts that are not
  negative, and a skip on a non-empty sequence.\<close>

fun regular_call :: "engine \<Rightarrow> operation \<Rightarrow> bool" where
  "regular_call s (Load ws startIndex) =
     (ws \<noteq> [] \<and> (case startIndex of None \<Rightarrow> True | Some i \<Rightarrow> 0 \<le> i))"
| "regular_call s (Rewind count) = (case count of None \<Rightarrow> True | Some c \<Rightarrow> 0 \<le> c)"
| "regular_call s (Skip count) =
     (words s \<noteq> [] \<and> (case count of None \<Rightarrow> True | Some c \<Rightarrow> 0 \<le> c))"
| "regular_call s x = True"

fun regular_run :: "engine \<Rightarrow> operation list \<Rightarrow> bool" where
  "regular_run s [] = True"
| "regular_run s (x # xs) = (regular_call s x \<and> regular_run (exec x s) xs)"

definition engine_inv :: "engine \<Rightarrow> bool" where
  "engine_inv s \<longleftrightarrow> position_in_bounds s \<and> chunk_in_range s"

subsection \<open>Progress formatting\<close>

definition spec_percent :: "int \<Rightarrow> nat \<Rightarrow> rat" where
  \<comment> \<open>min(100, 100 * current / total), 0 when total is 0\<close>
  "spec_percent cur tot =
     (if tot = 0 then 0 else min 100 (fmul 100 (fdiv (of_int cur) (of_nat tot))))"

definition spec_time_remaining :: "rat \<Rightarrow> jsstring" where
  "spec_time_remaining minutes =
     (if minutes < 1 then js ''< 1 min''
      else if minutes < 60 then number_string \<lceil>minutes\<rceil> @ js '' min''
      else number_string \<lfloor>fdiv minutes 60\<rfloor> @ js ''h '' @
           number_string \<lceil>js_rem minutes 60\<rceil> @ js ''m'')"

subsection \<open>Scheduling state\<close>

text \<open>The part of the engine and host that decides which steps are scheduled: length of
  the sequence, position, chunk size, playing flag, held handle, next handle and the
  handles of the timeouts that are set.\<close>

definition timer_view :: "engine \<Rightarrow> nat \<times> int \<times> int \<times> bool \<times> nat option \<times> nat \<times> nat list" where
  "timer_view s =
     (length (words s), currentIndex s, chunkSize s, isPlaying s, timerId s, nextHandle s,
      map fst (timeouts s))"

text \<open>At most one timeout is set, it is the one whose handle the engine holds, and none
  is set unless the engine is playing. A use of the engine is guarded when \<^verbatim>\<open>play\<close> is
  only called on an engine that is not playing, as \<^verbatim>\<open>togglePlay\<close> does.\<close>

definition single_step :: "engine \<Rightarrow> bool" where
  "single_step s \<longleftrightarrow>
     list_all (\<lambda>t. timerId s = Some (fst t)) (timeouts s) \<and> length (timeouts s) \<le> 1 \<and>
     (isPlaying s \<or> timeouts s = [])"

fun guarded_call :: "engine \<Rightarrow> operation \<Rightarrow> bool" where
  "guarded_call s Play = (\<not> isPlaying s)"
| "guarded_call s x = True"

fun guarded_run :: "engine \<Rightarrow> operation list \<Rightarrow> bool" where
  "guarded_run s [] = True"
| "guarded_run s (x # xs) = (guarded_call s x \<and> guarded_run (exec x s) xs)"

subsection \<open>The example sequence\<close>

definition example_words :: "jsstring list" where
  "example_words = [js ''A'', js ''quick.'', js ''brown'', js ''fox'', js ''jumped.'']"

section \<open>Frame lemmas\<close>

lemma emit_frame [simp]:
  "words (emit ev d s) = words s"
  "currentIndex (emit ev d s) = currentIndex s"
  "isPlaying (emit ev d s) = isPlaying s"
  "isPaused (emit ev d s) = isPaused s"
  "timerId (emit ev d s) = timerId s"
  "wpm (emit ev d s) = wpm s"
  "chunkSize (emit ev d s) = chunkSize s"
  "listeners (emit ev d s) = listeners s"
  "timeouts (emit ev d s) = timeouts s"
  "nextHandle (emit ev d s) = nextHandle s"
  by (simp_all add: emit_def split: option.split)

lemma clearTimer_frame [simp]:
  "words (clearTimer s) = words s"
  "currentIndex (clearTimer s) = currentIndex s"
  "isPlaying (clearTimer s) = isPlaying s"
  "isPaused (clearTimer s) = isPaused s"
  "wpm (clearTimer s) = wpm s"
  "chunkSize (clearTimer s) = chunkSize s"
  "listeners (clearTimer s) = listeners s"
  "nextHandle (clearTimer s) = nextHandle s"
  "calls (clearTimer s) = calls s"
  by (simp_all add: clearTimer_def split: option.split)

lemma clearTimer_timerId [simp]: "timerId (clearTimer s) = None"
  by (simp add: clearTimer_def split: option.split)

lemma setTimeout_frame [simp]:
  "words (setTimeout d s) = words s"
  "currentIndex (setTimeout d s) = currentIndex s"
  "isPlaying (setTimeout d s) = isPlaying s"
  "isPaused (setTimeout d s) = isPaused s"
  "wpm (setTimeout d s) = wpm s"
  "chunkSize (setTimeout d s) = chunkSize s"
  "listeners (setTimeout d s) = listeners s"
  "calls (setTimeout d s) = calls s"
  by (simp_all add: setTimeout_def)

lemma emitCurrentWord_frame [simp]:
  "words (emitCurrentWord s) = words s"
  "currentIndex (emitCurrentWord s) = currentIndex s"
  "isPlaying (emitCurrentWord s) = isPlaying s"
  "isPaused (emitCurrentWord s) = isPaused s"
  "timerId (emitCurrentWord s) = timerId s"
  "wpm (emitCurrentWord s) = wpm s"
  "chunkSize (emitCurrentWord s) = chunkSize s"
  "listeners (emitCurrentWord s) = listeners s"
  "timeouts (emitCurrentWord s) = timeouts s"
  "nextHandle (emitCurrentWord s) = nextHandle s"
  by (simp_all add: emitCurrentWord_def)

section \<open>Configuration stays in range\<close>

lemma exec_config:
  "50 \<le> wpm s \<and> wpm s \<le> 1500 \<and> 1 \<le> chunkSize s \<and> chunkSize s \<le> 3 \<Longrightarrow>
   50 \<le> wpm (exec x s) \<and> wpm (exec x s) \<le> 1500 \<and>
   1 \<le> chunkSize (exec x s) \<and> chunkSize (exec x s) \<le> 3"
  by (cases x)
    (auto simp add: load_def play_def pause_def togglePlay_def rewind_def skip_def jumpTo_def
      setSpeed_def setChunkSize_def stop_def getProgress_def on_def off_def fire_def tick_def
      Let_def split: option.split)

lemma config_in_range:
  "50 \<le> wpm (run xs constructor) \<and> wpm (run xs constructor) \<le> 1500 \<and>
   1 \<le> chunkSize (run xs constructor) \<and> chunkSize (run xs constructor) \<le> 3"
proof -
  have "50 \<le> wpm (run xs s) \<and> wpm (run xs s) \<le> 1500 \<and>
      1 \<le> chunkSize (run xs s) \<and> chunkSize (run xs s) \<le> 3"
    if "50 \<le> wpm s \<and> wpm s \<le> 1500 \<and> 1 \<le> chunkSize s \<and> chunkSize s \<le> 3" for s
    using that
  proof (induction xs arbitrary: s)
    case Nil
    then show ?case by simp
  next
    case (Cons x xs)
    from Cons.prems have "50 \<le> wpm (exec x s) \<and> wpm (exec x s) \<le> 1500 \<and>
        1 \<le> chunkSize (exec x s) \<and> chunkSize (exec x s) \<le> 3"
      by (rule exec_config)
    then show ?case
      using Cons.IH [of "exec x s"] by simp
  qed
  then show ?thesis
    by (simp add: constructor_def)
qed

section \<open>Character classes\<close>

text \<open>
  The specification's character classes, listed character by character, are the sets
  that the range tests of the source accept.
\<close>

lemma character_codes:
  "cu CHR ''a'' = 97" "cu CHR ''z'' = 122" "cu CHR ''A'' = 65" "cu CHR ''Z'' = 90"
  "cu CHR ''0'' = 48" "cu CHR ''9'' = 57" "cu (CHR 0x27) = 39" "cu CHR ''-'' = 45"
  by (simp_all add: cu_def)

lemma letter_and_digit_lists:
  "js ''abcdefghijklmnopqrstuvwxyz'' = [97..<123]"
  "js ''ABCDEFGHIJKLMNOPQRSTUVWXYZ'' = [65..<91]"
  "js ''0123456789'' = [48..<58]"
  by (simp_all add: js_def cu_def upt_rec_numeral)

lemma kept_characters_set:
  "c \<in> set kept_characters \<longleftrightarrow>
     (97 \<le> c \<and> c < 123) \<or> (65 \<le> c \<and> c < 91) \<or> (48 \<le> c \<and> c < 58) \<or>
     (192 \<le> c \<and> c < 256) \<or> c = 39 \<or> c = 45"
  unfolding kept_characters_def letter_and_digit_lists character_codes
  by (simp only: set_append set_upt Un_iff atLeastLessThan_iff list.set insert_iff empty_iff)
    blast

lemma alphanumeric_characters_set:
  "c \<in> set alphanumeric_characters \<longleftrightarrow>
     (97 \<le> c \<and> c < 123) \<or> (65 \<le> c \<and> c < 91) \<or> (48 \<le> c \<and> c < 58)"
  unfolding alphanumeric_characters_def letter_and_digit_lists
  by (simp only: set_append set_upt Un_iff atLeastLessThan_iff)

lemma orp_char_kept: "orp_char c \<longleftrightarrow> c \<in> set kept_characters"
  unfolding orp_char_def kept_characters_set character_codes
  by arith

lemma alnum_char_alphanumeric: "alnum_char c \<longleftrightarrow> c \<in> set alphanumeric_characters"
  unfolding alnum_char_def alphanumeric_characters_set character_codes
  by arith

lemma filter_orp_char: "length (filter orp_char w) = clean_length w"
  by (simp add: clean_length_def orp_char_kept [abs_def])

lemma filter_alnum_char: "length (filter alnum_char w) = alphanumeric_length w"
  by (simp add: alphanumeric_length_def alnum_char_alphanumeric [abs_def])

text \<open>Evaluation counts with the range tests, which the two lemmas above justify.\<close>

lemma clean_length_code [code]: "clean_length w = length (filter orp_char w)"
  by (simp add: filter_orp_char)

lemma alphanumeric_length_code [code]: "alphanumeric_length w = length (filter alnum_char w)"
  by (simp add: filter_alnum_char)

section \<open>Rounding to binary64\<close>

text \<open>
  Rounding to the nearest integer moves a number by at most one half, and rounding a
  number of \<open>[1, 2^52)\<close> to binary64 by at most the fraction \<open>2^-53\<close> of it.
\<close>

lemma round_even_near:
  "m - 1 / 2 \<le> of_int (round_even m) \<and> of_int (round_even m) \<le> m + 1 / 2"
proof -
  define d where "d = m - of_int \<lfloor>m\<rfloor>"
  have lower: "of_int \<lfloor>m\<rfloor> \<le> m" and upper: "m < of_int \<lfloor>m\<rfloor> + 1"
    by linarith+
  consider "d < 1 / 2" | "1 / 2 \<le> d"
    by linarith
  then show ?thesis
  proof cases
    case 1
    then have "round_even m = \<lfloor>m\<rfloor>"
      by (simp add: round_even_def d_def Let_def)
    then show ?thesis
      using 1 lower unfolding d_def by linarith
  next
    case 2
    then have "round_even m = \<lfloor>m\<rfloor> \<or> round_even m = \<lfloor>m\<rfloor> + 1"
      by (simp add: round_even_def d_def Let_def)
    then show ?thesis
    proof
      assume "round_even m = \<lfloor>m\<rfloor>"
      then have "d = 1 / 2"
        using 2 by (auto simp add: round_even_def d_def Let_def split: if_splits)
      with \<open>round_even m = \<lfloor>m\<rfloor>\<close> show ?thesis
        unfolding d_def by linarith
    next
      assume "round_even m = \<lfloor>m\<rfloor> + 1"
      then have "of_int (round_even m) = of_int \<lfloor>m\<rfloor> + (1::rat)"
        by simp
      with 2 upper show ?thesis
        unfolding d_def by linarith
    qed
  qed
qed

lemma fl_error:
  assumes "1 \<le> y" and "y < 2 ^ 52"
  shows "\<bar>fl y - y\<bar> \<le> y / 2 ^ 53"
proof -
  define b where "b = nat (bitlen \<lfloor>y\<rfloor> - 1)"
  from assms have floor_pos: "0 < \<lfloor>y\<rfloor>"
    by linarith
  from bitlen_bounds [OF floor_pos]
  have low_int: "2 ^ b \<le> \<lfloor>y\<rfloor>" and high_int: "\<lfloor>y\<rfloor> < 2 ^ nat (bitlen \<lfloor>y\<rfloor>)"
    by (simp_all add: b_def)
  have "0 < bitlen \<lfloor>y\<rfloor>"
    using floor_pos bitlen_eq_zero_iff [of "\<lfloor>y\<rfloor>"] bitlen_nonneg [of "\<lfloor>y\<rfloor>"] by linarith
  then have len: "bitlen \<lfloor>y\<rfloor> = int b + 1"
    by (simp add: b_def)
  have low: "(2::rat) ^ b \<le> y"
  proof -
    from low_int have "(of_int (2 ^ b) :: rat) \<le> of_int \<lfloor>y\<rfloor>"
      by (simp only: of_int_le_iff)
    also have "\<dots> \<le> y"
      by simp
    finally show ?thesis
      by simp
  qed
  have "b < 52"
  proof (rule ccontr)
    assume "\<not> b < 52"
    then have "(2::rat) ^ 52 \<le> 2 ^ b"
      by (intro power_increasing) simp_all
    with low assms(2) show False
      by simp
  qed
  define q :: rat where "q = 2 ^ (52 - b)"
  have "0 < q"
    by (simp add: q_def)
  have scale: "q * 2 ^ b = 2 ^ 52"
    using \<open>b < 52\<close> by (simp add: q_def power_add [symmetric])
  from assms have "ilog2 y = int b"
    by (simp add: ilog2_def len)
  then have e: "max (ilog2 \<bar>y\<bar> - 52) (- 1074) = int b - 52"
    using assms by simp
  have "pow2 (int b - 52) = 1 / q"
    using \<open>b < 52\<close> by (simp add: pow2_def q_def nat_diff_distrib')
  with e assms have fl: "fl y = of_int (round_even (y * q)) / q"
    by (simp add: fl_def Let_def)
  from round_even_near [of "y * q"]
  have "\<bar>of_int (round_even (y * q)) - y * q\<bar> \<le> 1 / 2"
    by linarith
  then have "\<bar>of_int (round_even (y * q)) - y * q\<bar> / q \<le> (1 / 2) / q"
    by (rule divide_right_mono) (use \<open>0 < q\<close> in simp)
  moreover have "fl y - y = (of_int (round_even (y * q)) - y * q) / q"
    using \<open>0 < q\<close> by (simp add: fl diff_divide_distrib)
  ultimately have bound: "\<bar>fl y - y\<bar> \<le> (1 / 2) / q"
    using \<open>0 < q\<close> by (simp add: abs_divide)
  have "2 ^ 52 \<le> q * y"
  proof -
    from low \<open>0 < q\<close> have "q * 2 ^ b \<le> q * y"
      by (simp add: mult_left_mono)
    with scale show ?thesis
      by simp
  qed
  then have "(1 / 2) / q \<le> y / 2 ^ 53"
    using \<open>0 < q\<close> by (simp add: field_simps)
  with bound show ?thesis
    by linarith
qed

lemma fl_one: "fl 1 = 1"
  by code_simp

section \<open>The ORP split\<close>

lemma fl_035: "fl (35 / 100) = 3152519739159347 / 9007199254740992"
  by code_simp

lemma multiples_of_20:
  "\<lfloor>fmul 20 (fl (35 / 100))\<rfloor> = 7" "\<lfloor>fmul 40 (fl (35 / 100))\<rfloor> = 14"
  "\<lfloor>fmul 60 (fl (35 / 100))\<rfloor> = 21" "\<lfloor>fmul 80 (fl (35 / 100))\<rfloor> = 28"
  "\<lfloor>fmul 100 (fl (35 / 100))\<rfloor> = 35" "\<lfloor>fmul 120 (fl (35 / 100))\<rfloor> = 42"
  "\<lfloor>fmul 140 (fl (35 / 100))\<rfloor> = 49" "\<lfloor>fmul 160 (fl (35 / 100))\<rfloor> = 56"
  by code_simp+

lemma remainder_window:
  fixes r m :: int
  shows "r = 5 * m \<Longrightarrow> 0 \<le> m \<Longrightarrow> m < 20 \<Longrightarrow> r \<noteq> 0 \<Longrightarrow> 5 \<le> r \<and> r \<le> 95"
  by arith

lemma remainder_of_35:
  fixes n :: int
  assumes "35 * n mod 100 \<noteq> 0"
  shows "5 \<le> 35 * n mod 100 \<and> 35 * n mod 100 \<le> 95"
proof -
  have "5 * (7 * n mod 20) = (5 * (7 * n)) mod (5 * 20)"
    by (rule mult_mod_right)
  then have eq: "35 * n mod 100 = 5 * (7 * n mod 20)"
    by simp
  have "0 \<le> 7 * n mod 20" "7 * n mod 20 < 20"
    by simp_all
  with eq assms show ?thesis
    by (rule_tac remainder_window)
qed

lemma whole_products:
  fixes n :: int
  assumes "35 * n mod 100 = 0" "4 \<le> n" "n < 180"
  shows "n = 20 \<or> n = 40 \<or> n = 60 \<or> n = 80 \<or> n = 100 \<or> n = 120 \<or> n = 140 \<or> n = 160"
proof -
  from assms(1) have "100 dvd 35 * n"
    by (simp add: dvd_eq_mod_eq_0)
  then obtain a where a: "35 * n = 100 * a"
    by (auto simp add: dvd_def)
  then have "7 * n = 20 * a"
    by simp
  then have "n = 20 * (3 * a - n)"
    by simp
  then obtain j where j: "n = 20 * j"
    by blast
  with assms(2,3) have "1 \<le> j" "j \<le> 8"
    by simp_all
  then have "j = 1 \<or> j = 2 \<or> j = 3 \<or> j = 4 \<or> j = 5 \<or> j = 6 \<or> j = 7 \<or> j = 8"
    by arith
  with j show ?thesis
    by auto
qed

lemma floor_window:
  fixes x y f kk rr :: rat
  assumes "f - y \<le> y / 9007199254740992"
    "y - f \<le> y / 9007199254740992"
    "900719925474099200 * y = 900719925474099200 * kk + 9007199254740992 * rr - 20 * x"
    "5 \<le> rr" "rr \<le> 95" "4 \<le> x" "x < 180" "y < 63"
  shows "kk \<le> f \<and> f < kk + 1"
proof
  from assms show "kk \<le> f"
    by linarith
  from assms show "f < kk + 1"
    by linarith
qed

lemma product_floor:
  fixes n :: int
  assumes "4 \<le> n" and "n < 180" and "35 * n mod 100 \<noteq> 0"
  shows "\<lfloor>fmul (of_int n) (fl (35 / 100))\<rfloor> = 35 * n div 100"
proof -
  define k where "k = 35 * n div 100"
  define r where "r = 35 * n mod 100"
  define x :: rat where "x = of_int n"
  define y :: rat where "y = x * (3152519739159347 / 9007199254740992)"
  have split: "35 * n = 100 * k + r"
    unfolding k_def r_def by (simp only: mult_div_mod_eq)
  have "(of_int (35 * n) :: rat) = of_int (100 * k + r)"
    by (simp only: split)
  then have "35 * x = 100 * of_int k + of_int r"
    by (simp add: x_def)
  then have exact:
    "900719925474099200 * y = 900719925474099200 * of_int k + 9007199254740992 * of_int r - 20 * x"
    by (simp add: y_def)
  have nr: "4 \<le> x" "x < 180"
    using assms by (simp_all add: x_def)
  then have "1 \<le> y" and "y < 2 ^ 52" and small: "y < 63"
    by (simp_all add: y_def)
  from fl_error [OF \<open>1 \<le> y\<close> \<open>y < 2 ^ 52\<close>] have "\<bar>fl y - y\<bar> \<le> y / 2 ^ 53" .
  then have bound: "\<bar>fl y - y\<bar> \<le> y / 9007199254740992"
    by simp
  have err1: "fl y - y \<le> y / 9007199254740992"
    using bound by linarith
  have err2: "y - fl y \<le> y / 9007199254740992"
    using bound by linarith
  note err = err1 err2
  from remainder_of_35 [OF assms(3)] have rr: "(5::rat) \<le> of_int r" "(of_int r :: rat) \<le> 95"
    by (simp_all add: r_def)
  from floor_window [OF err exact rr nr small]
  have "\<lfloor>fl y\<rfloor> = k"
    by (simp add: floor_unique)
  then show ?thesis
    by (simp only: fmul_def fl_035 y_def x_def k_def)
qed

lemma orp_index_exact_below_180:
  assumes "len < 180"
  shows "spec_orp_index len = exact_orp_index len"
proof (cases "len \<le> 3")
  case True
  then show ?thesis
    by (simp add: spec_orp_index_def exact_orp_index_def)
next
  case False
  define n where "n = int len"
  from False assms have range: "4 \<le> n" "n < 180"
    by (simp_all add: n_def)
  have cast: "rat_of_nat len = of_int n"
    by (simp add: n_def)
  have exact: "\<lfloor>rat_of_nat len * 35 / 100\<rfloor> = 35 * n div 100"
  proof -
    have "rat_of_nat len * 35 / 100 = of_int (35 * n) / of_int 100"
      by (simp add: n_def)
    then show ?thesis
      by (simp only: floor_divide_of_int_eq)
  qed
  have "\<lfloor>fmul (of_nat len) (fl (35 / 100))\<rfloor> = 35 * n div 100"
  proof (cases "35 * n mod 100 = 0")
    case False
    with range have "\<lfloor>fmul (of_int n) (fl (35 / 100))\<rfloor> = 35 * n div 100"
      by (rule product_floor)
    then show ?thesis
      by (simp only: cast)
  next
    case True
    from whole_products [OF True range]
    show ?thesis
      unfolding cast using multiples_of_20 by (elim disjE) simp_all
  qed
  with exact False show ?thesis
    by (simp add: spec_orp_index_def exact_orp_index_def)
qed

lemma orp_cases:
  "(if n \<le> 0 then 0 else if n = 1 then 0 else if n = 2 then 0 else if n = 3 then 1 else k)
   = (if n \<le> 2 then 0 else if n = 3 then 1 else k)" for n k :: nat
  by auto

lemma calculateORP_spec: "calculateORP w = spec_orp_index (clean_length w)"
  unfolding calculateORP_def spec_orp_index_def js_floor_def Let_def filter_orp_char
  by (rule orp_cases)

lemma splitAtORP_fields:
  "splitAtORP w =
     \<lparr>before = take (spec_orp_index (clean_length w)) w,
      orp = (if spec_orp_index (clean_length w) < length w
             then [w ! spec_orp_index (clean_length w)] else []),
      after = drop (spec_orp_index (clean_length w) + 1) w,
      orpIndex = spec_orp_index (clean_length w),
      wordLength = length w\<rparr>"
  by (simp add: splitAtORP_def calculateORP_spec substring_def substring_from_def
      char_or_empty_def Let_def)

lemma splitAtORP_examples:
  "orpIndex (splitAtORP (js ''it'')) = 0"
  "orpIndex (splitAtORP (js ''the'')) = 1"
  "orpIndex (splitAtORP (js ''elephant'')) = 2"
  "splitAtORP (js ''(it)'') =
     \<lparr>before = [], orp = js ''('', after = js ''it)'', orpIndex = 0, wordLength = 4\<rparr>"
  "splitAtORP (js ''elephant...'') =
     \<lparr>before = js ''el'', orp = js ''e'', after = js ''phant...'', orpIndex = 2, wordLength = 11\<rparr>"
  "orpIndex (splitAtORP [cu CHR ''I'', cu (CHR 0x27), cu CHR ''m'']) = 1"
  "orpIndex (splitAtORP [cu CHR ''a'', cu CHR ''-'', cu CHR ''b'']) = 1"
  "orpIndex (splitAtORP [233, cu CHR ''t'', 233]) = 1"
  "orpIndex (splitAtORP [191, cu CHR ''t'', 215]) = 0"
  by code_simp+

lemma clean_length_replicate: "clean_length (replicate n (cu CHR ''a'')) = n"
  by (simp add: clean_length_def kept_characters_set character_codes)

text \<open>
  Claim C2, as amended. For every word \<open>w\<close>, \<^verbatim>\<open>splitAtORP\<close> takes the clean length of \<open>w\<close>:
  the number of its characters that are a letter \<open>a-z\<close> or \<open>A-Z\<close>, a digit, a character
  from U+00C0 to U+00FF, an apostrophe or a hyphen, every other character being
  stripped. The index is 0 for a clean length up to 2, 1 for 3, and from 4 on the floor
  of the binary64 product of the length and 0.35; for a clean length below 180 that is
  the floor of the exact product. The unstripped word is split there: the part before
  the index, the character at the index (empty when the index is outside the word) and
  the part after it. The words "it", "the" and "elephant" get the indices 0, 1 and 2;
  in "(it)" and "elephant..." the brackets and dots are left out of the length and kept
  in the parts; apostrophe, hyphen and U+00E9 are counted, U+00BF is not.
\<close>

theorem splitAtORP_matches_spec:
  "splitAtORP w =
     \<lparr>before = take (spec_orp_index (clean_length w)) w,
      orp = (if spec_orp_index (clean_length w) < length w
             then [w ! spec_orp_index (clean_length w)] else []),
      after = drop (spec_orp_index (clean_length w) + 1) w,
      orpIndex = spec_orp_index (clean_length w),
      wordLength = length w\<rparr>
   \<and> (clean_length w < 180 \<longrightarrow> orpIndex (splitAtORP w) = exact_orp_index (clean_length w))
   \<and> orpIndex (splitAtORP (js ''it'')) = 0
   \<and> orpIndex (splitAtORP (js ''the'')) = 1
   \<and> orpIndex (splitAtORP (js ''elephant'')) = 2
   \<and> splitAtORP (js ''(it)'') =
        \<lparr>before = [], orp = js ''('', after = js ''it)'', orpIndex = 0, wordLength = 4\<rparr>
   \<and> splitAtORP (js ''elephant...'') =
        \<lparr>before = js ''el'', orp = js ''e'', after = js ''phant...'', orpIndex = 2,
         wordLength = 11\<rparr>
   \<and> orpIndex (splitAtORP [cu CHR ''I'', cu (CHR 0x27), cu CHR ''m'']) = 1
   \<and> orpIndex (splitAtORP [cu CHR ''a'', cu CHR ''-'', cu CHR ''b'']) = 1
   \<and> orpIndex (splitAtORP [233, cu CHR ''t'', 233]) = 1
   \<and> orpIndex (splitAtORP [191, cu CHR ''t'', 215]) = 0"
proof -
  have exact: "orpIndex (splitAtORP w) = exact_orp_index (clean_length w)"
    if "clean_length w < 180"
    using that by (simp add: splitAtORP_fields orp_index_exact_below_180)
  show ?thesis
    by (intro conjI impI splitAtORP_fields splitAtORP_examples exact)
qed

theorem splitAtORP_matches_spec_witness:
  "clean_length (js ''elephant...'') < 180
   \<and> clean_length (js ''elephant...'') = 8
   \<and> exact_orp_index 8 = 2
   \<and> orpIndex (splitAtORP (js ''elephant...'')) = exact_orp_index (clean_length (js ''elephant...''))"
proof -
  have len: "clean_length (js ''elephant...'') = 8"
    by (simp add: clean_length_def kept_characters_set js_def cu_def)
  have "\<lfloor>(14::rat) / 5\<rfloor> = 2"
    by code_simp
  then have index: "exact_orp_index 8 = 2"
    by (simp add: exact_orp_index_def)
  have small: "clean_length (js ''elephant...'') < 180"
    by (simp add: len)
  note exact = splitAtORP_matches_spec [of "js ''elephant...''", THEN conjunct2, THEN conjunct1]
  from exact small
  have "orpIndex (splitAtORP (js ''elephant...'')) = exact_orp_index (clean_length (js ''elephant...''))"
    by (rule mp)
  with small len index show ?thesis
    by (intro conjI)
qed

text \<open>
  Claim C2 as stated, with the floor of the exact product, fails at clean length 180:
  180 times 0.35 is 63, the binary64 product lies just below it, and the index of a
  word of 180 letters is 62.
\<close>

theorem orp_index_counterexample:
  "clean_length (replicate 180 (cu CHR ''a'')) = 180
   \<and> orpIndex (splitAtORP (replicate 180 (cu CHR ''a''))) = 62
   \<and> exact_orp_index 180 = 63"
proof -
  have "\<lfloor>fmul 180 (fl (35 / 100))\<rfloor> = 62"
    by code_simp
  then have "spec_orp_index 180 = 62"
    by (simp add: spec_orp_index_def)
  moreover have "exact_orp_index 180 = 63"
    by (simp add: exact_orp_index_def)
  ultimately show ?thesis
    by (simp add: splitAtORP_fields clean_length_replicate)
qed

section \<open>The timing model\<close>

lemma punctuation_codes:
  "cu CHR ''.'' = 46" "cu CHR ''!'' = 33" "cu CHR ''?'' = 63" "cu CHR '','' = 44"
  "cu CHR '';'' = 59" "cu CHR '':'' = 58" "cu (CHR 0x22) = 34" "cu CHR '')'' = 41"
  "cu (CHR 0x0A) = 10"
  by (simp_all add: cu_def)

lemma modifier_matches_spec:
  assumes "\<not> ends_in_typographic_quote w"
  shows
  "(let cleanLen = length (filter alnum_char w);
        modifier = (if cleanLen \<le> 3 then fl (8 / 10)
                    else if 8 \<le> cleanLen then fl (12 / 10)
                    else 1);
        lastChar = last_char w;
        modifier =
          (if js_includes [Some (cu CHR ''.''), Some (cu CHR ''!''), Some (cu CHR ''?'')] lastChar
             then fadd modifier 1
           else if js_includes [Some (cu CHR '',''), Some (cu CHR '';''), Some (cu CHR '':'')] lastChar
             then fadd modifier (fl (6 / 10))
           else if js_includes [Some (cu (CHR 0x22)), Some (cu (CHR 0x22)), Some (cu (CHR 0x22)),
                             Some (cu (CHR 0x27)), Some (cu CHR '')'')] lastChar
             then fadd modifier (fl (3 / 10))
           else modifier)
    in (if js_includes w (cu (CHR 0x0A)) \<or> js_includes w 182
        then fadd modifier (fl (15 / 10)) else modifier))
   = spec_modifier w"
proof (cases "w = []")
  case True
  then show ?thesis
    by (simp add: spec_modifier_def length_factor_def punctuation_bonus_def paragraph_break_def
        last_char_def js_includes_def alphanumeric_length_def fl_one Let_def)
next
  case False
  with assms have plain: "last w \<noteq> 0x2019" "last w \<noteq> 0x201D"
    by (simp_all add: ends_in_typographic_quote_def typographic_closing_quote_def)
  from False plain show ?thesis
    unfolding filter_alnum_char
    by (auto simp add: spec_modifier_def length_factor_def punctuation_bonus_def
        closing_quote_def typographic_closing_quote_def paragraph_break_def last_char_def
        js_includes_def punctuation_codes character_codes fl_one Let_def)
qed

lemma calculateDelay_spec:
  "\<not> ends_in_typographic_quote w \<Longrightarrow> calculateDelay s w = spec_delay (wpm s) w"
  using modifier_matches_spec [of w]
  by (simp add: calculateDelay_def spec_delay_def Let_def)

lemma delay_examples:
  "spec_delay 300 (js ''cat.'') = 360" "spec_delay 300 (js ''word'') = 200"
  "\<not> ends_in_typographic_quote (js ''cat.'')" "\<not> ends_in_typographic_quote (js ''word'')"
  by code_simp+

text \<open>
  Claim C1, as amended. For every stored rate \<open>r\<close> (the rates that \<^verbatim>\<open>setSpeed\<close> can store
  lie between 50 and 1500) and every chunk \<open>w\<close> that does not end in a typographic
  closing quote (U+2019 or U+201D), the step delay is \<open>round((60000 / r) * modifier)\<close>
  with each operation carried out in binary64. The modifier is the length factor of the
  alphanumeric-stripped length (0.8 up to 3, 1.2 from 8 on, else 1), plus the one
  punctuation bonus chosen by the raw last character (1.0 for \<^verbatim>\<open>. ! ?\<close>, 0.6 for
  \<^verbatim>\<open>, ; :\<close>, 0.3 for a closing quote or parenthesis), plus 1.5 when the chunk contains a
  newline or a pilcrow. At rate 300 the delay of "cat." is 360 ms and that of "word" is
  200 ms.
\<close>

theorem calculateDelay_matches_spec:
  assumes "50 \<le> r" and "r \<le> 1500" and "\<not> ends_in_typographic_quote w"
  shows "calculateDelay (s\<lparr>wpm := r\<rparr>) w = spec_delay r w
    \<and> calculateDelay (s\<lparr>wpm := 300\<rparr>) (js ''cat.'') = 360
    \<and> calculateDelay (s\<lparr>wpm := 300\<rparr>) (js ''word'') = 200"
  using assms(3) by (simp add: calculateDelay_spec delay_examples)

theorem calculateDelay_matches_spec_witness:
  "(50::int) \<le> 300 \<and> (300::int) \<le> 1500 \<and> \<not> ends_in_typographic_quote (js ''(note)'')
   \<and> calculateDelay (constructor\<lparr>wpm := 300\<rparr>) (js ''(note)'') = spec_delay 300 (js ''(note)'')
   \<and> spec_delay 300 (js ''(note)'') = 260"
proof -
  have plain: "\<not> ends_in_typographic_quote (js ''(note)'')"
    by code_simp
  have at_300: "spec_delay 300 (js ''(note)'') = 260"
    by code_simp
  from calculateDelay_matches_spec [of 300 "js ''(note)''" constructor, OF _ _ plain] at_300 plain
  show ?thesis
    by simp
qed

text \<open>
  Claim C1 as stated fails on two inputs. With the product taken exactly, the delay of
  "elephants," at rate 320 is \<open>round(187.5 * 1.8) = 338\<close>; the binary64 sum of 1.2 and
  0.6 lies below 1.8 and \<^verbatim>\<open>_calculateDelay\<close> returns 337. A chunk that ends in the right
  double quotation mark U+201D ends in a closing quote, so that the claim gives it 260
  at rate 300; \<^verbatim>\<open>_calculateDelay\<close> returns 200, the list it tests for closing quotes
  holding the ASCII double quote three times and no typographic quote.
\<close>

theorem delay_formula_counterexample:
  "calculateDelay (constructor\<lparr>wpm := 320\<rparr>) (js ''elephants,'') = 337
   \<and> exact_delay 320 (js ''elephants,'') = 338
   \<and> calculateDelay (constructor\<lparr>wpm := 300\<rparr>) (js ''word'' @ [0x201D]) = 200
   \<and> exact_delay 300 (js ''word'' @ [0x201D]) = 260"
proof -
  have tie: "calculateDelay (constructor\<lparr>wpm := 320\<rparr>) (js ''elephants,'') = 337"
    "exact_delay 320 (js ''elephants,'') = 338"
    by code_simp+
  let ?w = "js ''word'' @ [0x201D]"
  have len: "length (filter alnum_char ?w) = 4"
    by (simp add: js_def cu_def alnum_char_def)
  have last: "?w \<noteq> []" "last ?w = 0x201D"
    by simp_all
  have no_break: "\<not> js_includes ?w 10" "\<not> js_includes ?w 182" "\<not> paragraph_break ?w"
    by (simp_all add: js_includes_def paragraph_break_def js_def cu_def)
  have plain: "js_round (fmul (fdiv 60000 300) 1) = 200"
    by code_simp
  have quoted: "\<lfloor>(60000::rat) / 300 * (1 + 3 / 10 + 0) + 1 / 2\<rfloor> = 260"
    by code_simp
  have code: "calculateDelay (constructor\<lparr>wpm := 300\<rparr>) ?w = 200"
    unfolding calculateDelay_def Let_def len
    by (simp add: last_char_def js_includes_def punctuation_codes character_codes plain
        no_break [unfolded js_includes_def] del: set_append)
  have "exact_modifier ?w = 1 + 3 / 10 + 0"
    unfolding exact_modifier_def filter_alnum_char [symmetric] len
    by (simp add: length_factor_def punctuation_bonus_def closing_quote_def
        typographic_closing_quote_def punctuation_codes no_break del: set_append)
  then have claim: "exact_delay 300 ?w = 260"
    by (simp only: exact_delay_def quoted of_int_numeral)
  from tie code claim show ?thesis
    by (intro conjI)
qed

section \<open>Clamped configuration and navigation\<close>

lemma clamp_max_min: "lo \<le> hi \<Longrightarrow> max lo (min hi x) = clamp x lo hi"
  by (simp add: clamp_def)

lemma clamp_max_min': "lo \<le> hi \<Longrightarrow> max lo (min x hi) = clamp x lo hi"
  by (simp add: clamp_def)

lemma play_empty: "words s = [] \<Longrightarrow> play s = s"
  by (simp add: play_def)

lemma stored_values:
  "wpm (setSpeed r s) = clamp r 50 1500"
  "chunkSize (setChunkSize k s) = clamp k 1 3"
  "words s \<noteq> [] \<Longrightarrow> currentIndex (jumpTo i s) = clamp i 0 (int (length (words s)) - 1)"
  "words s = [] \<Longrightarrow> currentIndex (jumpTo i s) = 0"
proof -
  show "wpm (setSpeed r s) = clamp r 50 1500"
    by (simp add: setSpeed_def Let_def clamp_max_min)
  show "chunkSize (setChunkSize k s) = clamp k 1 3"
    by (simp add: setChunkSize_def clamp_max_min)
  show "currentIndex (jumpTo i s) = clamp i 0 (int (length (words s)) - 1)" if "words s \<noteq> []"
  proof -
    from that have "(0::int) \<le> int (length (words s)) - 1"
      by (cases "words s") simp_all
    then show ?thesis
      by (simp add: jumpTo_def Let_def clamp_max_min')
  qed
  show "currentIndex (jumpTo i s) = 0" if "words s = []"
    using that by (simp add: jumpTo_def Let_def)
qed

lemma number_values:
  "setSpeed_value (Finite v) = Finite (clamp v 50 1500)"
  "setSpeed_value PosInfinity = Finite 1500"
  "setSpeed_value NegInfinity = Finite 50"
  "setChunkSize_value (Finite v) = Finite (clamp v 1 3)"
  "setChunkSize_value PosInfinity = Finite 3"
  "setChunkSize_value NegInfinity = Finite 1"
  "0 < len \<Longrightarrow> jumpTo_value len (Finite v) = Finite (clamp v 0 (of_nat len - 1))"
  "0 < len \<Longrightarrow> jumpTo_value len PosInfinity = Finite (of_nat len - 1)"
  "jumpTo_value len NegInfinity = Finite 0"
  "jumpTo_value 0 (Finite v) = Finite 0"
  "jumpTo_value 0 PosInfinity = Finite 0"
  by (auto simp add: setSpeed_value_def setChunkSize_value_def jumpTo_value_def math_max_def
      math_min_def clamp_def)

lemma integer_values:
  "setSpeed_value (Finite (of_int r)) = Finite (of_int (wpm (setSpeed r s)))"
  "setChunkSize_value (Finite (of_int k)) = Finite (of_int (chunkSize (setChunkSize k s)))"
  "jumpTo_value (length (words s)) (Finite (of_int i)) = Finite (of_int (currentIndex (jumpTo i s)))"
  by (auto simp add: setSpeed_value_def setChunkSize_value_def jumpTo_value_def math_max_def
      math_min_def setSpeed_def setChunkSize_def jumpTo_def Let_def)

lemma channel_of_name: "channel_of (channel_name ev) = Some ev"
  by (cases ev) (simp_all add: channel_of_def channels_def js_def cu_def)

lemma channel_not_inherited: "channel_name ev \<notin> set object_prototype_names"
  by (cases ev) (simp_all add: object_prototype_names_def js_def cu_def)

lemma typed_calls:
  "load_any (Some ws) i s = Inr (load ws i s)"
  "on_name (channel_name ev) cb s = Inr (on ev cb s)"
  "off_name (channel_name ev) cb s = Inr (off ev cb s)"
  by (simp_all add: load_any_def on_name_def off_name_def channel_of_name)

lemma in_types_returns:
  assumes "in_types c"
  shows "\<exists>s'. invoke c s = Inr s'"
proof (cases c)
  case (ILoad ws i)
  with assms show ?thesis
    by (auto simp add: load_any_def)
next
  case (IOn name cb)
  with assms obtain ev where "name = channel_name ev"
    by auto
  with IOn show ?thesis
    by (simp add: typed_calls)
next
  case (IOff name cb)
  with assms obtain ev where "name = channel_name ev"
    by auto
  with IOff show ?thesis
    by (simp add: typed_calls)
qed simp_all

text \<open>
  Claim C7, as amended. Every public operation returns without an error when its
  arguments are of the specified types: \<^verbatim>\<open>load\<close> is given a sequence of words, \<^verbatim>\<open>on\<close> and
  \<^verbatim>\<open>off\<close> the name of one of the eight channels. \<^verbatim>\<open>setSpeed\<close>, \<^verbatim>\<open>setChunkSize\<close> and \<^verbatim>\<open>jumpTo\<close>
  replace every number other than NaN, the infinities included, by the nearest value of
  50..1500, of 1..3 and of \<open>0..length - 1\<close> (0 on the empty sequence, where that range
  is empty); for an integer argument that value is what the engine stores. \<^verbatim>\<open>play\<close> on
  an empty sequence returns the engine as it was: no field changes and no callback is
  invoked.
\<close>

theorem inputs_are_clamped:
  "(in_types c \<longrightarrow> (\<exists>s'. invoke c s = Inr s'))
   \<and> setSpeed_value (Finite v) = Finite (clamp v 50 1500)
   \<and> setSpeed_value PosInfinity = Finite 1500
   \<and> setSpeed_value NegInfinity = Finite 50
   \<and> setChunkSize_value (Finite v) = Finite (clamp v 1 3)
   \<and> setChunkSize_value PosInfinity = Finite 3
   \<and> setChunkSize_value NegInfinity = Finite 1
   \<and> (0 < len \<longrightarrow> jumpTo_value len (Finite v) = Finite (clamp v 0 (of_nat len - 1)))
   \<and> (0 < len \<longrightarrow> jumpTo_value len PosInfinity = Finite (of_nat len - 1))
   \<and> jumpTo_value len NegInfinity = Finite 0
   \<and> jumpTo_value 0 (Finite v) = Finite 0
   \<and> wpm (setSpeed r s) = clamp r 50 1500
   \<and> chunkSize (setChunkSize k s) = clamp k 1 3
   \<and> (words s \<noteq> [] \<longrightarrow> currentIndex (jumpTo i s) = clamp i 0 (int (length (words s)) - 1))
   \<and> (words s = [] \<longrightarrow> currentIndex (jumpTo i s) = 0)
   \<and> (words s = [] \<longrightarrow> play s = s)"
  by (intro conjI impI; (rule number_values stored_values | erule in_types_returns
      number_values stored_values play_empty))

theorem inputs_are_clamped_witness:
  "in_types (ILoad (Some [js ''a'', js ''b'']) None)
   \<and> invoke (ILoad (Some [js ''a'', js ''b'']) None) constructor =
       Inr (load [js ''a'', js ''b''] None constructor)
   \<and> words constructor = []
   \<and> currentIndex (jumpTo 7 constructor) = 0
   \<and> play constructor = constructor
   \<and> words (load [js ''a'', js ''b''] None constructor) \<noteq> []
   \<and> currentIndex (jumpTo 7 (load [js ''a'', js ''b''] None constructor)) = 1
   \<and> jumpTo_value 2 (Finite 7) = Finite 1"
proof -
  let ?c = "ILoad (Some [js ''a'', js ''b'']) None"
  let ?s = "load [js ''a'', js ''b''] None constructor"
  note new = inputs_are_clamped [of ?c constructor 7 2 5000 0 7]
  note loaded = inputs_are_clamped [of ?c ?s 7 2 5000 0 7]
  have typed: "in_types ?c"
    by simp
  have returned: "invoke ?c constructor = Inr ?s"
    by (simp add: load_any_def)
  have empty: "words constructor = []"
    by (simp add: constructor_def)
  have full: "words ?s \<noteq> []" and len: "int (length (words ?s)) - 1 = 1"
    by (simp_all add: load_def Let_def)
  from new typed have "\<exists>s'. invoke ?c constructor = Inr s'"
    by blast
  from new empty have at_new: "currentIndex (jumpTo 7 constructor) = 0" "play constructor = constructor"
    by blast+
  from loaded full have "currentIndex (jumpTo 7 ?s) = clamp 7 0 (int (length (words ?s)) - 1)"
    by blast
  then have at_loaded: "currentIndex (jumpTo 7 ?s) = 1"
    by (simp add: len clamp_def)
  from new have "0 < (2::nat) \<longrightarrow> jumpTo_value 2 (Finite 7) = Finite (clamp 7 0 (of_nat 2 - 1))"
    by blast
  then have number: "jumpTo_value 2 (Finite 7) = Finite 1"
    by (simp add: clamp_def)
  from typed returned empty at_new full at_loaded number show ?thesis
    by (intro conjI)
qed

text \<open>
  Claim C7 as stated, for any input, fails outside those types: \<^verbatim>\<open>load(null)\<close> raises a
  TypeError, as do \<^verbatim>\<open>on\<close> and \<^verbatim>\<open>off\<close> with a name that the listener table inherits from
  \<^verbatim>\<open>Object.prototype\<close>, and the clamping expressions of \<^verbatim>\<open>setSpeed\<close>, \<^verbatim>\<open>setChunkSize\<close> and
  \<^verbatim>\<open>jumpTo\<close> map NaN to NaN.
\<close>

theorem errors_outside_types_counterexample:
  "invoke (ILoad None None) constructor = Inl TypeError
   \<and> invoke (IOn (js ''toString'') 7) constructor = Inl TypeError
   \<and> invoke (IOff (js ''constructor'') 7) constructor = Inl TypeError
   \<and> setSpeed_value NaN = NaN
   \<and> setChunkSize_value NaN = NaN
   \<and> jumpTo_value 5 NaN = NaN"
  by (simp add: load_any_def on_name_def off_name_def channel_of_def channels_def
      object_prototype_names_def js_def cu_def setSpeed_value_def setChunkSize_value_def
      jumpTo_value_def math_max_def math_min_def)

section \<open>Sentence navigation\<close>

lemma sentence_end_iff: "sentence_end ws j \<longleftrightarrow> sentence_end_at ws j"
  by (auto simp add: sentence_end_def sentence_end_at_def word_at_def ends_sentence_def
      js_includes_def)

lemma start_scan_spec:
  "start_scan ws i =
     (case filter (sentence_end_at ws) (rev [0..i]) of [] \<Rightarrow> 0 | j # _ \<Rightarrow> j + 1)"
proof (induction ws i rule: start_scan.induct)
  case (1 ws i)
  show ?case
  proof (cases "0 \<le> i")
    case True
    then have split: "[0..i] = [0..i - 1] @ [i]"
      by (simp add: upto_rec2)
    show ?thesis
    proof (cases "sentence_end ws i")
      case True
      with \<open>0 \<le> i\<close> split show ?thesis
        by (subst start_scan.simps) (simp add: sentence_end_iff)
    next
      case False
      with \<open>0 \<le> i\<close> split "1.IH" show ?thesis
        by (subst start_scan.simps) (simp add: sentence_end_iff)
    qed
  next
    case False
    then show ?thesis
      by (subst start_scan.simps) simp
  qed
qed

lemma end_scan_spec:
  "end_scan ws i =
     (case filter (sentence_end_at ws) [i..int (length ws) - 1] of
        [] \<Rightarrow> int (length ws) - 1
      | j # _ \<Rightarrow> min (j + 1) (int (length ws) - 1))"
proof (induction ws i rule: end_scan.induct)
  case (1 ws i)
  show ?case
  proof (cases "i < int (length ws)")
    case True
    then have split: "[i..int (length ws) - 1] = i # [i + 1..int (length ws) - 1]"
      by (simp add: upto_rec1)
    show ?thesis
    proof (cases "sentence_end ws i")
      case True
      with \<open>i < int (length ws)\<close> split show ?thesis
        by (subst end_scan.simps) (simp add: sentence_end_iff)
    next
      case False
      with \<open>i < int (length ws)\<close> split "1.IH" show ?thesis
        by (subst end_scan.simps) (simp add: sentence_end_iff)
    qed
  next
    case False
    then show ?thesis
      by (subst end_scan.simps) simp
  qed
qed

lemma rewind_sentence:
  "currentIndex (rewind None s) = spec_sentence_start (words s) (currentIndex s)"
  by (simp add: rewind_def Let_def findSentenceStart_def start_scan_spec spec_sentence_start_def)

lemma skip_sentence:
  "currentIndex (skip None s) = spec_sentence_end (words s) (currentIndex s)"
  by (simp add: skip_def Let_def findSentenceEnd_def end_scan_spec spec_sentence_end_def)

text \<open>
  Claim C6. For every loaded sequence and every position \<open>i\<close>, \<^verbatim>\<open>rewind()\<close> without a count
  moves to the position after the first sentence-ending word found scanning backward
  from \<open>i - 1\<close> (0 when there is none), and \<^verbatim>\<open>skip()\<close> without a count moves to the position
  after the first sentence-ending word found scanning forward from \<open>i\<close> inclusive,
  clamped to \<open>length - 1\<close> (\<open>length - 1\<close> when there is none). On the sequence "A",
  "quick.", "brown", "fox", "jumped." \<^verbatim>\<open>skip()\<close> from 0 and \<^verbatim>\<open>rewind()\<close> from 4 both land at 2.
\<close>

theorem sentence_navigation:
  "currentIndex (rewind None s) = spec_sentence_start (words s) (currentIndex s)
   \<and> currentIndex (skip None s) = spec_sentence_end (words s) (currentIndex s)
   \<and> currentIndex (skip None
        (load [js ''A'', js ''quick.'', js ''brown'', js ''fox'', js ''jumped.''] (Some 0) s)) = 2
   \<and> currentIndex (rewind None
        (load [js ''A'', js ''quick.'', js ''brown'', js ''fox'', js ''jumped.''] (Some 4) s)) = 2"
proof -
  let ?ws = "[js ''A'', js ''quick.'', js ''brown'', js ''fox'', js ''jumped.'']"
  have loaded: "words (load ?ws i s) = ?ws" for i
    by (simp add: load_def Let_def)
  have at0: "currentIndex (load ?ws (Some 0) s) = 0"
    by (simp add: load_def Let_def)
  have at4: "currentIndex (load ?ws (Some 4) s) = 4"
    by (simp add: load_def Let_def)
  have forward: "spec_sentence_end ?ws 0 = 2"
    by code_simp
  have backward: "spec_sentence_start ?ws 4 = 2"
    by code_simp
  have skip_example: "currentIndex (skip None (load ?ws (Some 0) s)) = 2"
    by (simp only: skip_sentence loaded at0 forward)
  have rewind_example: "currentIndex (rewind None (load ?ws (Some 4) s)) = 2"
    by (simp only: rewind_sentence loaded at4 backward)
  from rewind_sentence skip_sentence skip_example rewind_example show ?thesis
    by blast
qed

section \<open>Stop and the status frame of navigation\<close>

lemma stop_timeouts:
  "timeouts (stop s) = filter (\<lambda>t. Some (fst t) \<noteq> timerId s) (timeouts s)"
  by (cases "timerId s") (auto simp add: stop_def clearTimer_def Let_def emit_def split: option.split)

lemma stop_clears_single:
  "list_all (\<lambda>t. timerId s = Some (fst t)) (timeouts s) \<Longrightarrow> timeouts (stop s) = []"
  by (auto simp add: stop_timeouts list_all_iff filter_empty_conv)

lemma stop_status:
  "timerId (stop s) = None" "\<not> isPlaying (stop s)" "\<not> isPaused (stop s)"
  "currentIndex (stop s) = currentIndex s"
  by (simp_all add: stop_def Let_def)

lemma navigation_status:
  "isPlaying (rewind c s) = isPlaying s" "isPaused (rewind c s) = isPaused s"
  "isPlaying (skip c s) = isPlaying s" "isPaused (skip c s) = isPaused s"
  "isPlaying (jumpTo i s) = isPlaying s" "isPaused (jumpTo i s) = isPaused s"
  by (simp_all add: rewind_def skip_def jumpTo_def Let_def split: option.split)

text \<open>
  \<^verbatim>\<open>stop\<close> forgets the handle the engine holds and removes the timeout of that handle,
  resets both status flags and leaves the position as it was; \<^verbatim>\<open>rewind\<close>, \<^verbatim>\<open>skip\<close> and
  \<^verbatim>\<open>jumpTo\<close> leave both status flags as they were, with or without a count and for every
  index and every state.
\<close>

lemma stop_frame:
  "timerId (stop s) = None
   \<and> timeouts (stop s) = filter (\<lambda>t. Some (fst t) \<noteq> timerId s) (timeouts s)
   \<and> \<not> isPlaying (stop s) \<and> \<not> isPaused (stop s)
   \<and> currentIndex (stop s) = currentIndex s"
  by (intro conjI; rule stop_timeouts stop_status)

lemma navigation_frame:
  "isPlaying (rewind c s) = isPlaying s \<and> isPaused (rewind c s) = isPaused s
   \<and> isPlaying (skip c s) = isPlaying s \<and> isPaused (skip c s) = isPaused s
   \<and> isPlaying (jumpTo i s) = isPlaying s \<and> isPaused (jumpTo i s) = isPaused s"
  by (intro conjI; rule navigation_status)

section \<open>The listener table\<close>

lemma tick_listeners [simp]: "listeners (tick s) = listeners s"
  by (simp add: tick_def Let_def)

lemma playback_listeners:
  "listeners (load ws i s) = listeners s"
  "listeners (play s) = listeners s"
  "listeners (pause s) = listeners s"
  "listeners (togglePlay s) = listeners s"
  "listeners (rewind c s) = listeners s"
  "listeners (skip c s) = listeners s"
  "listeners (jumpTo j s) = listeners s"
  "listeners (setSpeed r s) = listeners s"
  "listeners (setChunkSize r s) = listeners s"
  "listeners (stop s) = listeners s"
  "listeners (snd (getProgress s)) = listeners s"
  "listeners (fire h s) = listeners s"
  by (simp_all add: load_def play_def pause_def togglePlay_def rewind_def skip_def jumpTo_def
      setSpeed_def setChunkSize_def stop_def getProgress_def fire_def Let_def
      split: option.split)

lemma exec_listeners:
  "listeners (exec x s) \<noteq> listeners s \<Longrightarrow> (\<exists>ev cb. x = On ev cb \<or> x = Off ev cb)"
  by (cases x) (simp_all add: playback_listeners)

lemma on_handle: "fst (on ev cb s) = off ev cb"
  by (simp add: on_def Let_def)

lemma registered_on: "registered (snd (on ev cb s)) ev = registered s ev @ [cb]"
  by (simp add: on_def registered_def Let_def split: option.split)

lemma registered_off: "registered (off ev cb s) ev = filter (\<lambda>c. c \<noteq> cb) (registered s ev)"
  by (simp add: off_def registered_def split: option.split)

lemma calls_emit: "calls (emit ev d s) = calls s @ map (\<lambda>c. (c, ev, d)) (registered s ev)"
  by (simp add: emit_def registered_def split: option.split)

lemma calls_on [simp]: "calls (snd (on ev cb s)) = calls s"
  by (simp add: on_def Let_def)

lemma calls_off [simp]: "calls (off ev cb s) = calls s"
  by (simp add: off_def split: option.split)

text \<open>
  Claim C10. Every call other than \<^verbatim>\<open>on\<close> and \<^verbatim>\<open>off\<close> (and every timer callback) leaves
  the listener table as it was, \<^verbatim>\<open>load\<close> and \<^verbatim>\<open>stop\<close> included, so subscriptions outlive a
  document load. The handle returned by \<^verbatim>\<open>on\<close> is \<^verbatim>\<open>off\<close> for the same channel and callback,
  and \<^verbatim>\<open>off\<close> removes all registrations of the callback under that channel at once: a
  callback registered twice is invoked twice by an emission, and not at all after one
  \<^verbatim>\<open>off\<close>.
\<close>

theorem listener_table_frame:
  "(listeners (exec x s) \<noteq> listeners s \<longrightarrow> (\<exists>ev cb. x = On ev cb \<or> x = Off ev cb))
   \<and> listeners (load ws i s) = listeners s
   \<and> listeners (stop s) = listeners s
   \<and> fst (on ev cb s) = off ev cb
   \<and> registered (off ev cb s) ev = filter (\<lambda>c. c \<noteq> cb) (registered s ev)
   \<and> cb \<notin> set (registered (off ev cb s) ev)
   \<and> calls (emit ev d (snd (on ev cb (snd (on ev cb s))))) =
       calls s @ map (\<lambda>c. (c, ev, d)) (registered s ev) @ [(cb, ev, d), (cb, ev, d)]
   \<and> calls (emit ev d (fst (on ev cb s) (snd (on ev cb (snd (on ev cb s)))))) =
       calls s @ map (\<lambda>c. (c, ev, d)) (filter (\<lambda>c. c \<noteq> cb) (registered s ev))"
proof -
  have absent: "cb \<notin> set (registered (off ev cb s) ev)"
    by (simp add: registered_off)
  have twice: "calls (emit ev d (snd (on ev cb (snd (on ev cb s))))) =
       calls s @ map (\<lambda>c. (c, ev, d)) (registered s ev) @ [(cb, ev, d), (cb, ev, d)]"
    by (simp add: calls_emit registered_on)
  have removed: "calls (emit ev d (fst (on ev cb s) (snd (on ev cb (snd (on ev cb s)))))) =
       calls s @ map (\<lambda>c. (c, ev, d)) (filter (\<lambda>c. c \<noteq> cb) (registered s ev))"
    by (simp add: calls_emit registered_on registered_off on_handle)
  from exec_listeners [of x s] playback_listeners(1) [of ws i s] playback_listeners(10) [of s]
    on_handle [of ev cb s] registered_off [of ev cb s] absent twice removed
  show ?thesis
    by (intro conjI impI) assumption+
qed

theorem listener_table_frame_witness:
  "listeners (exec (On WordEv 7) constructor) \<noteq> listeners constructor
   \<and> (\<exists>ev cb. On WordEv 7 = On ev cb \<or> On WordEv 7 = Off ev cb)
   \<and> calls (emit WordEv NoData (snd (on WordEv 7 (snd (on WordEv 7 constructor))))) =
       [(7, WordEv, NoData), (7, WordEv, NoData)]
   \<and> calls (emit WordEv NoData
        (fst (on WordEv 7 constructor) (snd (on WordEv 7 (snd (on WordEv 7 constructor)))))) = []"
proof -
  have changed: "listeners (exec (On WordEv 7) constructor) \<noteq> listeners constructor"
  proof
    assume "listeners (exec (On WordEv 7) constructor) = listeners constructor"
    then have "listeners (exec (On WordEv 7) constructor) WordEv = listeners constructor WordEv"
      by simp
    then show False
      by (simp add: on_def constructor_def Let_def)
  qed
  have none: "registered constructor WordEv = []" "calls constructor = []"
    by (simp_all add: registered_def constructor_def)
  note frame = listener_table_frame [of "On WordEv 7" constructor "[]" None WordEv 7 NoData]
  from frame changed have origin: "\<exists>ev cb. On WordEv 7 = On ev cb \<or> On WordEv 7 = Off ev cb"
    by blast
  from frame none have twice:
    "calls (emit WordEv NoData (snd (on WordEv 7 (snd (on WordEv 7 constructor))))) =
       [(7, WordEv, NoData), (7, WordEv, NoData)]"
    by simp
  have removed:
    "calls (emit WordEv NoData
        (fst (on WordEv 7 constructor) (snd (on WordEv 7 (snd (on WordEv 7 constructor)))))) = []"
  proof -
    from frame have
      "calls (emit WordEv NoData
          (fst (on WordEv 7 constructor) (snd (on WordEv 7 (snd (on WordEv 7 constructor)))))) =
       calls constructor @
         map (\<lambda>c. (c, WordEv, NoData)) (filter (\<lambda>c. c \<noteq> 7) (registered constructor WordEv))"
      by blast
    also have "\<dots> = []"
      by (simp add: none)
    finally show ?thesis .
  qed
  from changed origin twice removed show ?thesis
    by blast
qed

section \<open>Bounds of the playback position\<close>

lemma start_scan_bounds: "0 \<le> start_scan ws i \<and> start_scan ws i \<le> max 0 (i + 1)"
proof (induction ws i rule: start_scan.induct)
  case (1 ws i)
  then show ?case
    by (subst (1 2) start_scan.simps) auto
qed

lemma end_scan_bounds:
  "ws \<noteq> [] \<Longrightarrow> 0 \<le> end_scan ws i \<and> end_scan ws i \<le> int (length ws) - 1"
proof (induction ws i rule: end_scan.induct)
  case (1 ws i)
  from \<open>ws \<noteq> []\<close> have len: "1 \<le> int (length ws)"
    by (cases ws) simp_all
  show ?case
  proof (cases "i < int (length ws) \<and> \<not> sentence_end ws i")
    case True
    with 1 show ?thesis
      by (subst (1 2) end_scan.simps) simp
  next
    case False
    with len show ?thesis
      by (subst (1 2) end_scan.simps) (auto simp add: sentence_end_def word_at_def split: if_splits)
  qed
qed

lemma tick_inv: "engine_inv s \<Longrightarrow> engine_inv (tick s)"
  by (auto simp add: engine_inv_def position_in_bounds_def chunk_in_range_def tick_def Let_def)

lemma tick_inv_timeouts: "engine_inv s \<Longrightarrow> engine_inv (tick (s\<lparr>timeouts := ts\<rparr>))"
  by (auto simp add: engine_inv_def position_in_bounds_def chunk_in_range_def tick_def Let_def)

lemma play_inv:
  assumes "engine_inv s"
  shows "engine_inv (play s)"
proof (cases "length (words s) = 0")
  case True
  with assms show ?thesis
    by (simp add: play_def)
next
  case False
  let ?s1 = "if currentIndex s \<ge> int (length (words s)) then s\<lparr>currentIndex := 0\<rparr> else s"
  let ?s3 = "emit PlayEv NoData (?s1\<lparr>isPlaying := True, isPaused := False\<rparr>)"
  from assms have "engine_inv ?s3"
    by (auto simp add: engine_inv_def position_in_bounds_def chunk_in_range_def)
  then have "engine_inv (tick ?s3)"
    by (rule tick_inv)
  moreover from False have "play s = tick ?s3"
    by (simp add: play_def Let_def)
  ultimately show ?thesis
    by simp
qed

lemma pause_inv: "engine_inv s \<Longrightarrow> engine_inv (pause s)"
  by (simp add: engine_inv_def position_in_bounds_def chunk_in_range_def pause_def Let_def)

lemma stop_inv: "engine_inv s \<Longrightarrow> engine_inv (stop s)"
  by (simp add: engine_inv_def position_in_bounds_def chunk_in_range_def stop_def Let_def)

lemma load_inv:
  "regular_call s (Load ws i) \<Longrightarrow> engine_inv s \<Longrightarrow> engine_inv (load ws i s)"
  by (cases ws) (auto simp add: engine_inv_def position_in_bounds_def chunk_in_range_def load_def Let_def
      split: option.splits)

lemma rewind_inv: "regular_call s (Rewind c) \<Longrightarrow> engine_inv s \<Longrightarrow> engine_inv (rewind c s)"
  using start_scan_bounds [of "words s" "currentIndex s - 1"]
  by (auto simp add: engine_inv_def position_in_bounds_def chunk_in_range_def rewind_def Let_def
      findSentenceStart_def split: option.splits)

lemma skip_inv: "regular_call s (Skip c) \<Longrightarrow> engine_inv s \<Longrightarrow> engine_inv (skip c s)"
  using end_scan_bounds [of "words s" "currentIndex s"]
  by (cases "words s") (auto simp add: engine_inv_def position_in_bounds_def chunk_in_range_def skip_def Let_def
      findSentenceEnd_def split: option.splits)

lemma jumpTo_inv: "engine_inv s \<Longrightarrow> engine_inv (jumpTo i s)"
  by (auto simp add: engine_inv_def position_in_bounds_def chunk_in_range_def jumpTo_def Let_def)

lemma setSpeed_inv: "engine_inv s \<Longrightarrow> engine_inv (setSpeed r s)"
  by (simp add: engine_inv_def position_in_bounds_def chunk_in_range_def setSpeed_def Let_def)

lemma setChunkSize_inv: "engine_inv s \<Longrightarrow> engine_inv (setChunkSize c s)"
  by (simp add: engine_inv_def position_in_bounds_def chunk_in_range_def setChunkSize_def)

lemma on_inv: "engine_inv s \<Longrightarrow> engine_inv (snd (on ev cb s))"
  by (simp add: engine_inv_def position_in_bounds_def chunk_in_range_def on_def Let_def)

lemma off_inv: "engine_inv s \<Longrightarrow> engine_inv (off ev cb s)"
  by (simp add: engine_inv_def position_in_bounds_def chunk_in_range_def off_def split: option.split)

lemma fire_inv: "engine_inv s \<Longrightarrow> engine_inv (fire h s)"
  by (simp add: fire_def tick_inv_timeouts)

lemma exec_inv: "regular_call s x \<Longrightarrow> engine_inv s \<Longrightarrow> engine_inv (exec x s)"
proof (cases x)
  case (Load ws i)
  then show "regular_call s x \<Longrightarrow> engine_inv s \<Longrightarrow> engine_inv (exec x s)"
    by (simp add: load_inv del: regular_call.simps)
next
  case (Rewind c)
  then show "regular_call s x \<Longrightarrow> engine_inv s \<Longrightarrow> engine_inv (exec x s)"
    by (simp add: rewind_inv del: regular_call.simps)
next
  case (Skip c)
  then show "regular_call s x \<Longrightarrow> engine_inv s \<Longrightarrow> engine_inv (exec x s)"
    by (simp add: skip_inv del: regular_call.simps)
qed (simp_all add: play_inv pause_inv stop_inv togglePlay_def jumpTo_inv setSpeed_inv
    setChunkSize_inv on_inv off_inv fire_inv getProgress_def)

lemma run_inv: "regular_run s xs \<Longrightarrow> engine_inv s \<Longrightarrow> engine_inv (run xs s)"
  by (induction xs arbitrary: s) (simp_all add: exec_inv)

lemma constructor_inv: "engine_inv constructor"
  by (simp add: engine_inv_def position_in_bounds_def chunk_in_range_def constructor_def)

text \<open>
  Claim C3, as amended. In every state reached from a new engine by calls in the
  described domain (a load of a non-empty sequence at a start index that is not
  negative, counts that are not negative, a skip on a non-empty sequence; timer
  callbacks at any time), the position is at least 0 and at most two past the length of
  the loaded sequence: an autoplay step adds the chunk size, which is at most 3, to a
  position below the length.
\<close>

theorem position_within_overshoot:
  assumes "regular_run constructor xs"
  shows "0 \<le> currentIndex (run xs constructor)
    \<and> currentIndex (run xs constructor) \<le> int (length (words (run xs constructor))) + 2"
  using run_inv [OF assms constructor_inv]
  by (simp add: engine_inv_def position_in_bounds_def)

theorem position_within_overshoot_witness:
  "regular_run constructor [Load [js ''a'', js ''b''] None, SetChunkSize 3, Play]
   \<and> currentIndex (run [Load [js ''a'', js ''b''] None, SetChunkSize 3, Play] constructor) = 3
   \<and> length (words (run [Load [js ''a'', js ''b''] None, SetChunkSize 3, Play] constructor)) = 2"
proof -
  let ?xs = "[Load [js ''a'', js ''b''] None, SetChunkSize 3, Play]"
  have regular: "regular_run constructor ?xs"
    by code_simp
  have len: "length (words (run ?xs constructor)) = 2"
    by code_simp
  have lower: "currentIndex (run ?xs constructor) \<ge> 3"
    by code_simp
  have upper: "currentIndex (run ?xs constructor) \<le> 3"
    by code_simp
  from position_within_overshoot [OF regular] lower upper
  have "currentIndex (run ?xs constructor) = 3"
    by simp
  with regular len show ?thesis
    by blast
qed

text \<open>
  Claim C3 as stated fails. The position leaves \<open>[0, length]\<close>: below 0 after a load at a
  negative start index, after a load of an empty sequence, after a skip on the empty
  sequence of a new engine and after a skip by a negative count; above the length after
  an autoplay step of chunk size 3 from position 0 of a two-word sequence and after a
  rewind by a negative count.
\<close>

theorem position_in_length_counterexample:
  "\<not> 0 \<le> currentIndex (run [Load [js ''a'', js ''b''] (Some (- 5))] constructor)
   \<and> \<not> 0 \<le> currentIndex (run [Load [] None] constructor)
   \<and> \<not> 0 \<le> currentIndex (run [Skip None] constructor)
   \<and> \<not> 0 \<le> currentIndex (run [Load [js ''a'', js ''b''] None, Skip (Some (- 5))] constructor)
   \<and> \<not> currentIndex (run [Load [js ''a'', js ''b''] None, SetChunkSize 3, Play] constructor)
         \<le> int (length (words (run [Load [js ''a'', js ''b''] None, SetChunkSize 3, Play] constructor)))
   \<and> \<not> currentIndex (run [Load [js ''a'', js ''b''] None, Rewind (Some (- 9))] constructor)
         \<le> int (length (words (run [Load [js ''a'', js ''b''] None, Rewind (Some (- 9))] constructor)))"
  by code_simp

section \<open>Load\<close>

lemma load_effects:
  "words (load ws i s) = ws"
  "\<not> isPlaying (load ws i s)"
  "\<not> isPaused (load ws i s)"
  "timerId (load ws i s) = None"
  "timeouts (load ws i s) = filter (\<lambda>t. Some (fst t) \<noteq> timerId s) (timeouts s)"
  "calls (load ws i s) =
     calls s @ map (\<lambda>cb. (cb, LoadEv, LoadData (length ws) (currentIndex (load ws i s))))
       (registered s LoadEv)"
  by (cases "timerId s";
      simp add: load_def Let_def emit_def clearTimer_def registered_def split: option.split)+

lemma load_start_in_range:
  "ws \<noteq> [] \<Longrightarrow> 0 \<le> i \<Longrightarrow>
   currentIndex (load ws (Some i) s) = clamp i 0 (int (length ws) - 1)"
  by (cases ws) (auto simp add: load_def Let_def clamp_def)

text \<open>
  Claim C4, at the inputs where the source departs from it. The claim has \<^verbatim>\<open>load\<close> clamp
  the start index into \<open>[0, length - 1]\<close>, and to 0 on an empty sequence. The source
  takes the minimum of the start index and \<open>length - 1\<close> only: a negative start index is
  stored as it is, and an empty sequence gives position \<open>- 1\<close>. \<^verbatim>\<open>jumpTo\<close> on the same
  arguments stores 0.
\<close>

theorem load_lower_bound_missing:
  "currentIndex (load [js ''a'', js ''b''] (Some (- 5)) constructor) = - 5
   \<and> currentIndex (load [] (Some 0) constructor) = - 1
   \<and> currentIndex (load [] None constructor) = - 1
   \<and> currentIndex (jumpTo (- 5) (load [js ''a'', js ''b''] None constructor)) = 0
   \<and> currentIndex (jumpTo 0 (load [] None constructor)) = 0"
  by code_simp

section \<open>Progress data\<close>

lemma round_even_le: "of_int (round_even m) \<le> m + 1 / 2"
proof -
  define d where "d = m - of_int \<lfloor>m\<rfloor>"
  have floor_le: "of_int \<lfloor>m\<rfloor> \<le> m"
    by simp
  consider "d < 1 / 2" | "1 / 2 \<le> d"
    by linarith
  then show ?thesis
  proof cases
    case 1
    then have "round_even m = \<lfloor>m\<rfloor>"
      by (simp add: round_even_def d_def Let_def)
    moreover have "of_int \<lfloor>m\<rfloor> \<le> m + 1 / 2"
      using floor_le by linarith
    ultimately show ?thesis
      by simp
  next
    case 2
    then have "round_even m = \<lfloor>m\<rfloor> \<or> round_even m = \<lfloor>m\<rfloor> + 1"
      by (simp add: round_even_def d_def Let_def)
    moreover from 2 have "of_int (\<lfloor>m\<rfloor> + 1) \<le> m + 1 / 2"
      by (simp add: d_def)
    moreover have "of_int \<lfloor>m\<rfloor> \<le> m + 1 / 2"
      using floor_le by linarith
    ultimately show ?thesis
      by auto
  qed
qed

lemma ilog2_below_one:
  assumes "0 < x" and "x < 1"
  shows "ilog2 x \<le> - 1"
proof -
  from assms have "1 < 1 / x"
    by simp
  then have "2 \<le> \<lceil>1 / x\<rceil>"
    by linarith
  then have "0 < \<lceil>1 / x\<rceil> - 1"
    by simp
  then have "1 \<le> bitlen (\<lceil>1 / x\<rceil> - 1)"
    using bitlen_eq_zero_iff [of "\<lceil>1 / x\<rceil> - 1"] bitlen_nonneg [of "\<lceil>1 / x\<rceil> - 1"]
    by linarith
  with assms show ?thesis
    by (simp add: ilog2_def)
qed

lemma fl_below_one:
  assumes "0 \<le> x" and "1500 * x \<le> 1499"
  shows "fl x < 1"
proof (cases "x = 0")
  case True
  then show ?thesis
    by (simp add: fl_def)
next
  case False
  with assms have pos: "0 < x" and small: "x < 1"
    by simp_all
  define e where "e = max (ilog2 x - 52) (- 1074)"
  define p :: rat where "p = 2 ^ nat (- e)"
  from pos small have "e \<le> - 53"
    using ilog2_below_one [of x] by (simp add: e_def)
  then have scale: "pow2 e = 1 / p"
    by (simp add: pow2_def p_def)
  from \<open>e \<le> - 53\<close> have "53 \<le> nat (- e)"
    by simp
  then have "(2::rat) ^ 53 \<le> 2 ^ nat (- e)"
    by (rule power_increasing) simp
  then have large: "2 ^ 53 \<le> p"
    by (simp add: p_def)
  then have "0 < p"
    by simp
  have "of_int (round_even (x * p)) \<le> x * p + 1 / 2"
    by (rule round_even_le)
  also have "\<dots> < p"
  proof -
    define y where "y = x * p"
    from assms(2) \<open>0 < p\<close> have "(1500 * x) * p \<le> 1499 * p"
      by (rule_tac mult_right_mono) simp_all
    then have "1500 * y \<le> 1499 * p"
      by (simp add: y_def mult.assoc)
    with large have "y + 1 / 2 < p"
      by simp
    then show ?thesis
      by (simp add: y_def)
  qed
  finally have "of_int (round_even (x * p)) / p < 1"
    using \<open>0 < p\<close> by simp
  moreover have "fl x = of_int (round_even (x * p)) / p"
  proof -
    from pos have "fl x = of_int (round_even (x / pow2 e)) * pow2 e"
      unfolding fl_def e_def Let_def by simp
    then show ?thesis
      by (simp add: scale)
  qed
  ultimately show ?thesis
    by simp
qed

lemma fdiv_below_one:
  assumes "0 \<le> k" and "k < w" and "w \<le> 1500"
  shows "fdiv (of_int k) (of_int w) < 1"
proof -
  from assms have "0 < w"
    by simp
  have "(1500::rat) * (of_int k / of_int w) \<le> 1499"
  proof -
    from assms have "1500 * k \<le> 1499 * w"
      by simp
    then have "(of_int (1500 * k) :: rat) \<le> of_int (1499 * w)"
      by (simp only: of_int_le_iff)
    with \<open>0 < w\<close> show ?thesis
      by (simp add: pos_le_divide_eq pos_divide_le_eq mult.commute)
  qed
  moreover from assms have "(0::rat) \<le> of_int k / of_int w"
    by simp
  ultimately show ?thesis
    unfolding fdiv_def by (rule fl_below_one [rotated])
qed

lemma formatTime_spec: "formatTime m = spec_time_remaining m"
  by (simp add: formatTime_def spec_time_remaining_def js_floor_def js_ceil_def Let_def)

lemma percent_spec:
  "percent (progressData s) = spec_percent (currentIndex s) (length (words s))"
  by (simp add: progressData_def spec_percent_def Let_def fmul_def mult.commute)

lemma progress_fields:
  "current (progressData s) = currentIndex s"
  "total (progressData s) = length (words s)"
  "wordsRemaining (progressData s) = max 0 (int (length (words s)) - currentIndex s)"
  "timeRemaining (progressData s) =
     spec_time_remaining
       (fdiv (of_int (max 0 (int (length (words s)) - currentIndex s))) (of_int (wpm s)))"
  by (simp_all add: progressData_def Let_def formatTime_spec)

lemma empty_time_remaining:
  assumes "words s = []" and "0 \<le> currentIndex s" and "wpm s \<le> 1500" and "50 \<le> wpm s"
  shows "timeRemaining (progressData s) = js ''< 1 min''"
proof -
  let ?k = "max 0 (int (length (words s)) - currentIndex s)"
  from assms have "0 \<le> ?k" and "?k < wpm s"
    by simp_all
  then have "fdiv (of_int ?k) (of_int (wpm s)) < 1"
    using assms(3) by (rule fdiv_below_one)
  then show ?thesis
    by (simp only: progress_fields spec_time_remaining_def if_True)
qed

text \<open>
  For every state, \<^verbatim>\<open>getProgress\<close> leaves the engine as it was and returns the position,
  the length, the percentage \<open>min(100, 100 * (current / total))\<close> (0 for an empty
  sequence), the remaining words \<open>max(0, total - current)\<close> and the remaining time
  formatted from remaining words divided by the rate.
\<close>

lemma getProgress_formulas:
  "snd (getProgress s) = s
   \<and> current (fst (getProgress s)) = currentIndex s
   \<and> total (fst (getProgress s)) = length (words s)
   \<and> percent (fst (getProgress s)) = spec_percent (currentIndex s) (length (words s))
   \<and> wordsRemaining (fst (getProgress s)) = max 0 (int (length (words s)) - currentIndex s)
   \<and> timeRemaining (fst (getProgress s)) =
        spec_time_remaining
          (fdiv (of_int (wordsRemaining (fst (getProgress s)))) (of_int (wpm s)))"
proof -
  have pure: "snd (getProgress s) = s" and data: "fst (getProgress s) = progressData s"
    by (simp_all add: getProgress_def)
  show ?thesis
    unfolding data
    by (intro conjI pure percent_spec; simp only: progress_fields)
qed

text \<open>
  On an empty sequence at a position that is not negative the percentage is 0, no word
  remains and the remaining time is "< 1 min".
\<close>

lemma getProgress_empty:
  assumes "words s = []" and "0 \<le> currentIndex s" and "50 \<le> wpm s" and "wpm s \<le> 1500"
  shows "percent (fst (getProgress s)) = 0"
    and "wordsRemaining (fst (getProgress s)) = 0"
    and "timeRemaining (fst (getProgress s)) = js ''< 1 min''"
proof -
  have data: "fst (getProgress s) = progressData s"
    by (simp add: getProgress_def)
  from assms(1) show "percent (fst (getProgress s)) = 0"
    by (simp add: data percent_spec spec_percent_def)
  from assms(1,2) show "wordsRemaining (fst (getProgress s)) = 0"
    by (simp add: data progress_fields)
  from assms show "timeRemaining (fst (getProgress s)) = js ''< 1 min''"
    by (simp only: data empty_time_remaining)
qed

text \<open>
  Claim C8, at the input where the source departs from it. The claim gives every state
  with an empty sequence the remaining time of no remaining word. \<^verbatim>\<open>load\<close> stores a
  negative start index as the position, which \<^verbatim>\<open>jumpTo\<close> would replace by 0: after a load
  of the empty sequence at start index \<open>- 1000\<close> the sequence is empty, the position is
  \<open>- 1000\<close>, and \<^verbatim>\<open>getProgress\<close> returns 1000 remaining words and the remaining time
  "4 min". After \<^verbatim>\<open>jumpTo\<close> of the same index on the new engine it returns 0 and
  "< 1 min".
\<close>

theorem progress_after_negative_load:
  "words (load [] (Some (- 1000)) constructor) = []
   \<and> currentIndex (load [] (Some (- 1000)) constructor) = - 1000
   \<and> percent (fst (getProgress (load [] (Some (- 1000)) constructor))) = 0
   \<and> wordsRemaining (fst (getProgress (load [] (Some (- 1000)) constructor))) = 1000
   \<and> timeRemaining (fst (getProgress (load [] (Some (- 1000)) constructor))) = js ''4 min''
   \<and> timeRemaining (fst (getProgress (load [] (Some (- 1000)) constructor))) \<noteq> js ''< 1 min''
   \<and> words (jumpTo (- 1000) constructor) = []
   \<and> currentIndex (jumpTo (- 1000) constructor) = 0
   \<and> wordsRemaining (fst (getProgress (jumpTo (- 1000) constructor))) = 0
   \<and> timeRemaining (fst (getProgress (jumpTo (- 1000) constructor))) = js ''< 1 min''"
  by code_simp

section \<open>Scheduled steps\<close>

lemma pause_timeouts:
  "timeouts (pause s) = filter (\<lambda>t. Some (fst t) \<noteq> timerId s) (timeouts s)"
  by (cases "timerId s") (simp_all add: pause_def clearTimer_def Let_def)

lemma play_from_idle:
  "timeouts s = [] \<Longrightarrow> list_all (\<lambda>t. timerId (play s) = Some (fst t)) (timeouts (play s))"
  by (simp add: play_def tick_def setTimeout_def Let_def)

lemma pause_after_play:
  assumes "timeouts s = []"
  shows "timeouts (pause (play s)) = []" and "fire h (pause (play s)) = pause (play s)"
proof -
  from play_from_idle [OF assms] show none: "timeouts (pause (play s)) = []"
    by (auto simp add: pause_timeouts list_all_iff filter_empty_conv)
  then show "fire h (pause (play s)) = pause (play s)"
    by (simp add: fire_def)
qed

lemma clearTimer_view:
  "map fst (timeouts (clearTimer s)) = filter (\<lambda>h. Some h \<noteq> timerId s) (map fst (timeouts s))"
  by (cases "timerId s") (simp_all add: clearTimer_def filter_map comp_def)

lemma tick_view:
  assumes "timer_view s = (n, i, c, True, t, h, hs)" and "i < int n"
  shows "timer_view (tick s) = (n, i + c, c, True, Some h, Suc h, hs @ [h])"
  using assms by (simp add: timer_view_def tick_def setTimeout_def Let_def)

lemma play_view:
  assumes "timer_view s = (n, i, c, p, t, h, hs)" and "0 < n" and "i < int n"
  shows "timer_view (play s) = (n, i + c, c, True, Some h, Suc h, hs @ [h])"
proof -
  let ?s3 = "emit PlayEv NoData (s\<lparr>isPlaying := True, isPaused := False\<rparr>)"
  from assms have "play s = tick ?s3"
    by (simp add: play_def timer_view_def Let_def)
  moreover from assms have "timer_view ?s3 = (n, i, c, True, t, h, hs)"
    by (simp add: timer_view_def)
  ultimately show ?thesis
    using tick_view [of ?s3 n i c t h hs] assms(3) by simp
qed

lemma pause_view:
  assumes "timer_view s = (n, i, c, p, t, h, hs)"
  shows "timer_view (pause s) = (n, i, c, False, None, h, filter (\<lambda>x. Some x \<noteq> t) hs)"
  using assms by (auto simp add: timer_view_def pause_def Let_def clearTimer_view)

lemma stop_view:
  assumes "timer_view s = (n, i, c, p, t, h, hs)"
  shows "timer_view (stop s) = (n, i, c, False, None, h, filter (\<lambda>x. Some x \<noteq> t) hs)"
  using assms by (auto simp add: timer_view_def stop_def Let_def clearTimer_view)

lemma load_view:
  assumes "timer_view s = (n, i, c, p, t, h, hs)"
  shows "timer_view (load ws None s) =
    (length ws, min 0 (int (length ws) - 1), c, False, None, h, filter (\<lambda>x. Some x \<noteq> t) hs)"
  using assms by (auto simp add: timer_view_def load_def Let_def clearTimer_view)

lemma fire_view:
  assumes "timer_view s = (n, i, c, True, t, h, hs)" and "x \<in> set hs" and "i < int n"
  shows "timer_view (fire x s) = (n, i + c, c, True, Some h, Suc h, filter (\<lambda>y. y \<noteq> x) hs @ [h])"
proof -
  let ?s1 = "s\<lparr>timeouts := filter (\<lambda>t. fst t \<noteq> x) (timeouts s)\<rparr>"
  from assms have "fire x s = tick ?s1"
    by (auto simp add: fire_def timer_view_def)
  moreover from assms have "timer_view ?s1 = (n, i, c, True, t, h, filter (\<lambda>y. y \<noteq> x) hs)"
    by (auto simp add: timer_view_def filter_map comp_def)
  ultimately show ?thesis
    using tick_view [of ?s1 n i c t h "filter (\<lambda>y. y \<noteq> x) hs"] assms(3) by simp
qed

lemma tick_step_calls:
  assumes "isPlaying s" and "currentIndex s < int (length (words s))"
  shows "calls (tick s) =
    calls s @
    map (\<lambda>cb. (cb, WordEv, WordData (displayWord s) (currentIndex s) (splitAtORP (displayWord s))))
      (registered s WordEv) @
    map (\<lambda>cb. (cb, ProgressEv, ProgressData (progressData s))) (registered s ProgressEv)"
proof -
  let ?s1 = "emit WordEv (WordData (displayWord s) (currentIndex s) (splitAtORP (displayWord s))) s"
  have same: "progressData ?s1 = progressData s"
    by (simp add: progressData_def)
  have "registered ?s1 ProgressEv = registered s ProgressEv"
    by (simp add: registered_def)
  with assms same show ?thesis
    by (simp add: tick_def Let_def calls_emit)
qed

lemma clearTimer_timeouts:
  "timeouts (clearTimer s) = filter (\<lambda>t. Some (fst t) \<noteq> timerId s) (timeouts s)"
  by (cases "timerId s") (simp_all add: clearTimer_def)

lemma held_only_cleared:
  "list_all (\<lambda>t. h = Some (fst t)) ts \<Longrightarrow> filter (\<lambda>t. Some (fst t) \<noteq> h) ts = []"
  by (induction ts) auto

lemma cleared_single: "timeouts s = [] \<Longrightarrow> single_step s"
  by (simp add: single_step_def)

lemma load_single: "single_step s \<Longrightarrow> timeouts (load ws i s) = []"
  by (simp add: load_def Let_def clearTimer_timeouts held_only_cleared single_step_def)

lemma pause_single: "single_step s \<Longrightarrow> timeouts (pause s) = []"
  by (simp add: pause_def Let_def clearTimer_timeouts held_only_cleared single_step_def)

lemma stop_single: "single_step s \<Longrightarrow> timeouts (stop s) = []"
  by (simp add: stop_def Let_def clearTimer_timeouts held_only_cleared single_step_def)

lemma tick_single: "timeouts s = [] \<Longrightarrow> single_step (tick s)"
  by (simp add: single_step_def tick_def setTimeout_def Let_def)

lemma play_single:
  assumes "single_step s" and "\<not> isPlaying s"
  shows "single_step (play s)"
proof (cases "length (words s) = 0")
  case True
  with assms show ?thesis
    by (simp add: play_def)
next
  case False
  from assms have "timeouts s = []"
    by (simp add: single_step_def)
  with False show ?thesis
    by (simp add: play_def Let_def tick_single)
qed

lemma fire_single:
  assumes "single_step s"
  shows "single_step (fire h s)"
proof (cases "h \<in> fst ` set (timeouts s)")
  case True
  with assms have "filter (\<lambda>t. fst t \<noteq> h) (timeouts s) = []"
    by (cases "timeouts s") (auto simp add: single_step_def)
  with True show ?thesis
    by (simp add: fire_def tick_single)
next
  case False
  with assms show ?thesis
    by (simp add: fire_def)
qed

lemma navigation_single:
  "single_step s \<Longrightarrow> single_step (rewind c s)"
  "single_step s \<Longrightarrow> single_step (skip c s)"
  "single_step s \<Longrightarrow> single_step (jumpTo i s)"
  "single_step s \<Longrightarrow> single_step (setSpeed r s)"
  "single_step s \<Longrightarrow> single_step (setChunkSize r s)"
  "single_step s \<Longrightarrow> single_step (snd (on ev cb s))"
  "single_step s \<Longrightarrow> single_step (off ev cb s)"
  by (simp_all add: single_step_def rewind_def skip_def jumpTo_def setSpeed_def
      setChunkSize_def on_def off_def Let_def split: option.split)

lemma exec_single: "guarded_call s x \<Longrightarrow> single_step s \<Longrightarrow> single_step (exec x s)"
  by (cases x)
    (auto simp add: load_single pause_single stop_single play_single fire_single
      navigation_single cleared_single togglePlay_def getProgress_def)

lemma run_single: "guarded_run s xs \<Longrightarrow> single_step s \<Longrightarrow> single_step (run xs s)"
  by (induction xs arbitrary: s) (simp_all add: exec_single)

lemma one_step_outstanding:
  assumes "guarded_run constructor xs"
  shows "length (timeouts (run xs constructor)) \<le> 1"
    and "timeouts (pause (run xs constructor)) = []"
    and "timeouts (stop (run xs constructor)) = []"
    and "timeouts (load ws i (run xs constructor)) = []"
proof -
  have "single_step constructor"
    by (simp add: single_step_def constructor_def)
  with assms have single: "single_step (run xs constructor)"
    by (rule run_single)
  then show "length (timeouts (run xs constructor)) \<le> 1"
    by (simp add: single_step_def)
  from single show "timeouts (pause (run xs constructor)) = []"
    by (rule pause_single)
  from single show "timeouts (stop (run xs constructor)) = []"
    by (rule stop_single)
  from single show "timeouts (load ws i (run xs constructor)) = []"
    by (rule load_single)
qed

text \<open>
  Claim C5, at the input where the source departs from it. The claim has at most one
  scheduled step outstanding, and none that was scheduled before a \<^verbatim>\<open>pause\<close>, \<^verbatim>\<open>stop\<close> or
  \<^verbatim>\<open>load\<close> firing after it. \<^verbatim>\<open>play\<close> schedules a step without clearing the one already
  scheduled: after two calls of \<^verbatim>\<open>play\<close> on the example sequence two timeouts are set and
  the engine holds the handle of the second only; \<^verbatim>\<open>pause\<close>, \<^verbatim>\<open>stop\<close> and \<^verbatim>\<open>load\<close> clear that
  one and leave the first. When playback is resumed, the callback of the first runs as a
  step of its own and advances the position a second time.
\<close>

theorem double_play_leaves_step:
  "map fst (timeouts (play (play (load example_words None constructor)))) = [1, 2]
   \<and> timerId (play (play (load example_words None constructor))) = Some 2
   \<and> map fst (timeouts (pause (play (play (load example_words None constructor))))) = [1]
   \<and> map fst (timeouts (stop (play (play (load example_words None constructor))))) = [1]
   \<and> map fst (timeouts (load example_words None (play (play (load example_words None constructor))))) = [1]
   \<and> currentIndex (play (pause (play (play (load example_words None constructor))))) = 3
   \<and> currentIndex (fire 1 (play (pause (play (play (load example_words None constructor)))))) = 4"
proof -
  let ?s0 = "load example_words None constructor"
  have "timer_view constructor = (0, 0, 1, False, None, 1, [])"
    by (simp add: timer_view_def constructor_def)
  from load_view [OF this, of example_words]
  have v0: "timer_view ?s0 = (5, 0, 1, False, None, 1, [])"
    by (simp add: example_words_def)
  from play_view [OF v0] have v1: "timer_view (play ?s0) = (5, 1, 1, True, Some 1, 2, [1])"
    by simp
  from play_view [OF v1] have v2: "timer_view (play (play ?s0)) = (5, 2, 1, True, Some 2, 3, [1, 2])"
    by simp
  from pause_view [OF v2]
  have v3: "timer_view (pause (play (play ?s0))) = (5, 2, 1, False, None, 3, [1])"
    by simp
  from stop_view [OF v2]
  have v3s: "timer_view (stop (play (play ?s0))) = (5, 2, 1, False, None, 3, [1])"
    by simp
  from load_view [OF v2, of example_words]
  have v3l: "timer_view (load example_words None (play (play ?s0))) = (5, 0, 1, False, None, 3, [1])"
    by (simp add: example_words_def)
  from play_view [OF v3]
  have v4: "timer_view (play (pause (play (play ?s0)))) = (5, 3, 1, True, Some 3, 4, [1, 3])"
    by simp
  from fire_view [OF v4, of 1]
  have v5: "timer_view (fire 1 (play (pause (play (play ?s0))))) = (5, 4, 1, True, Some 4, 5, [3, 4])"
    by simp
  from v2 v3 v3s v3l v4 v5 show ?thesis
    by (simp add: timer_view_def)
qed

text \<open>
  Claim C9, at the input where the source departs from it. The claim has \<^verbatim>\<open>stop\<close> cancel
  the pending scheduled step. \<^verbatim>\<open>stop\<close> clears the timeout whose handle the engine holds,
  and \<^verbatim>\<open>play\<close> overwrites that handle without clearing its timeout: after two calls of
  \<^verbatim>\<open>play\<close> on the example sequence, \<^verbatim>\<open>stop\<close> resets the status and keeps the position
  but leaves the timeout of handle 1 set, and after a \<^verbatim>\<open>pause\<close> in between it holds no
  handle and cancels nothing. When playback is started again, the callback of handle 1
  runs as a step of its own and advances the position.
\<close>

theorem stop_leaves_unheld_step:
  "map fst (timeouts (play (play (load example_words None constructor)))) = [1, 2]
   \<and> map fst (timeouts (stop (play (play (load example_words None constructor))))) = [1]
   \<and> timeouts (stop (play (play (load example_words None constructor)))) \<noteq> []
   \<and> timerId (stop (play (play (load example_words None constructor)))) = None
   \<and> \<not> isPlaying (stop (play (play (load example_words None constructor))))
   \<and> \<not> isPaused (stop (play (play (load example_words None constructor))))
   \<and> currentIndex (stop (play (play (load example_words None constructor)))) =
       currentIndex (play (play (load example_words None constructor)))
   \<and> timeouts (stop (pause (play (play (load example_words None constructor))))) =
       timeouts (pause (play (play (load example_words None constructor))))
   \<and> map fst (timeouts (stop (pause (play (play (load example_words None constructor)))))) = [1]
   \<and> currentIndex (play (stop (play (play (load example_words None constructor))))) = 3
   \<and> currentIndex (fire 1 (play (stop (play (play (load example_words None constructor)))))) = 4"
proof -
  let ?s0 = "load example_words None constructor"
  let ?s2 = "play (play ?s0)"
  have "timer_view constructor = (0, 0, 1, False, None, 1, [])"
    by (simp add: timer_view_def constructor_def)
  from load_view [OF this, of example_words]
  have v0: "timer_view ?s0 = (5, 0, 1, False, None, 1, [])"
    by (simp add: example_words_def)
  from play_view [OF v0] have v1: "timer_view (play ?s0) = (5, 1, 1, True, Some 1, 2, [1])"
    by simp
  from play_view [OF v1] have v2: "timer_view ?s2 = (5, 2, 1, True, Some 2, 3, [1, 2])"
    by simp
  from stop_view [OF v2] have v3: "timer_view (stop ?s2) = (5, 2, 1, False, None, 3, [1])"
    by simp
  from pause_view [OF v2] have v3p: "timer_view (pause ?s2) = (5, 2, 1, False, None, 3, [1])"
    by simp
  from stop_view [OF v3p]
  have v4p: "timer_view (stop (pause ?s2)) = (5, 2, 1, False, None, 3, [1])"
    by simp
  from play_view [OF v3]
  have v4: "timer_view (play (stop ?s2)) = (5, 3, 1, True, Some 3, 4, [1, 3])"
    by simp
  from fire_view [OF v4, of 1]
  have v5: "timer_view (fire 1 (play (stop ?s2))) = (5, 4, 1, True, Some 4, 5, [3, 4])"
    by simp
  from v3p have "timerId (pause ?s2) = None"
    by (simp add: timer_view_def)
  then have same: "timeouts (stop (pause ?s2)) = timeouts (pause ?s2)"
    by (simp add: stop_timeouts)
  from v3 have left: "timeouts (stop ?s2) \<noteq> []"
    by (auto simp add: timer_view_def)
  have flags: "\<not> isPlaying (stop ?s2)" "\<not> isPaused (stop ?s2)"
    "currentIndex (stop ?s2) = currentIndex ?s2"
    by (rule stop_status)+
  from v2 v3 v4p v4 v5 same left flags show ?thesis
    by (simp add: timer_view_def)
qed

end
